theory Spec2Isabelle
  imports Main "HOL-Library.AList"
begin

section \<open>JSON values and the JavaScript operations used by \<open>test-records.js\<close>\<close>

text \<open>
  A parsed record is whatever \<open>JSON.parse\<close> returns. Objects are association lists in
  JavaScript's property order with pairwise distinct keys (the parser keeps the last of
  two equal keys). Strings are lists of code units; this development covers code units
  below 256. A number is carried as the text that \<open>String\<close> and \<open>JSON.stringify\<close>
  print for it, the same text for every number a JSON file can hold (\<open>5\<close>,
  \<open>-12\<close>, \<open>1.5\<close>, \<open>1e+21\<close>; zero of either sign prints as \<open>0\<close>): the
  validator only tests numbers for truthiness and prints them.
\<close>

datatype json =
    JNull
  | JBool bool
  | JNum string
  | JStr string
  | JArr "json list"
  | JObj "(string \<times> json) list"

datatype error =
    TypeError string
  | ENOENT string

abbreviation NL :: char where
  "NL \<equiv> CHR 0x0A"

abbreviation DQ :: char where
  "DQ \<equiv> CHR 0x22"

abbreviation BSL :: char where
  "BSL \<equiv> CHR 0x5C"

abbreviation SQ :: char where
  "SQ \<equiv> CHR 0x27"

text \<open>Decimal digits of a natural number, as \<open>Object.keys\<close> names an index.\<close>

fun dec :: "nat \<Rightarrow> string" where
  "dec n = (if n < 10 then [char_of (48 + n)] else dec (n div 10) @ [char_of (48 + n mod 10)])"

declare dec.simps [simp del]

text \<open>\<open>Array.prototype.join\<close> on an array of strings.\<close>

fun join :: "string \<Rightarrow> string list \<Rightarrow> string" where
  "join sep [] = []"
| "join sep [x] = x"
| "join sep (x # y # ys) = x @ sep @ join sep (y # ys)"

text \<open>
  \<open>ToString\<close> on a JSON value, as string concatenation, template literals and computed
  property keys apply it. An array prints its elements separated by commas, a
  \<open>null\<close> element as the empty string.
\<close>

fun js_toString :: "json \<Rightarrow> string" where
  "js_toString JNull = ''null''"
| "js_toString (JBool b) = (if b then ''true'' else ''false'')"
| "js_toString (JNum n) = n"
| "js_toString (JStr s) = s"
| "js_toString (JArr xs) = join '','' (map (\<lambda>x. if x = JNull then [] else js_toString x) xs)"
| "js_toString (JObj kvs) = ''[object Object]''"

text \<open>The result of a property read is a JSON value or \<open>undefined\<close> (\<open>None\<close>).\<close>

fun js_str :: "json option \<Rightarrow> string" where
  "js_str None = ''undefined''"
| "js_str (Some v) = js_toString v"

fun truthy :: "json option \<Rightarrow> bool" where
  "truthy None = False"
| "truthy (Some JNull) = False"
| "truthy (Some (JBool b)) = b"
| "truthy (Some (JNum n)) = (n \<noteq> ''0'')"
| "truthy (Some (JStr s)) = (s \<noteq> [])"
| "truthy (Some (JArr xs)) = True"
| "truthy (Some (JObj kvs)) = True"

text \<open>
  \<open>Object.keys(v)\<close>: the own enumerable keys. An array and a string have their indices
  as keys; a number and a boolean have none. (On \<open>null\<close> the validator has thrown before
  it asks for keys.)
\<close>

fun object_keys :: "json \<Rightarrow> string list" where
  "object_keys (JObj kvs) = map fst kvs"
| "object_keys (JArr xs) = map dec [0..<length xs]"
| "object_keys (JStr s) = map dec [0..<length s]"
| "object_keys v = []"

text \<open>
  \<open>v[key]\<close> for a value other than \<open>null\<close> and for the keys the validator reads: the
  fixed field names of a record (none of them a built-in property of an array or a
  string) and the keys returned by \<open>Object.keys\<close>.
\<close>

fun js_get :: "json \<Rightarrow> string \<Rightarrow> json option" where
  "js_get (JObj kvs) key = map_of kvs key"
| "js_get (JArr xs) key =
     (case filter (\<lambda>i. dec i = key) [0..<length xs] of [] \<Rightarrow> None | i # _ \<Rightarrow> Some (xs ! i))"
| "js_get (JStr s) key =
     (case filter (\<lambda>i. dec i = key) [0..<length s] of [] \<Rightarrow> None | i # _ \<Rightarrow> Some (JStr [s ! i]))"
| "js_get v key = None"

text \<open>
  \<open>v[key] = x\<close> for a key that \<open>v\<close> already has: an object keeps the key's position,
  an array replaces the element, and an assignment to a property of a primitive is
  dropped (the script runs in sloppy mode).
\<close>

fun js_set :: "json \<Rightarrow> string \<Rightarrow> json \<Rightarrow> json" where
  "js_set (JObj kvs) key x = JObj (AList.update key x kvs)"
| "js_set (JArr xs) key x =
     (case filter (\<lambda>i. dec i = key) [0..<length xs] of [] \<Rightarrow> JArr xs | i # _ \<Rightarrow> JArr (xs[i := x]))"
| "js_set v key x = v"

text \<open>
  \<open>String.prototype.trim\<close> removes white space and line terminators from both ends.
  Below 256 these are TAB, LF, VT, FF, CR, SPACE and NBSP.
\<close>

definition is_ws :: "char \<Rightarrow> bool" where
  "is_ws c \<longleftrightarrow> c \<in> set [CHR 0x09, CHR 0x0A, CHR 0x0B, CHR 0x0C, CHR 0x0D, CHR 0x20, CHR 0xA0]"

definition trim :: "string \<Rightarrow> string" where
  "trim s = rev (dropWhile is_ws (rev (dropWhile is_ws s)))"

text \<open>\<open>s.split(c)\<close> for a one-character separator: never an empty array.\<close>

fun split :: "char \<Rightarrow> string \<Rightarrow> string list" where
  "split c [] = [[]]"
| "split c (x # xs) =
     (if x = c then [] # split c xs
      else (case split c xs of [] \<Rightarrow> [[x]] | l # ls \<Rightarrow> (x # l) # ls))"

text \<open>
  \<open>names.includes(v)\<close> on an array of strings compares with SameValueZero: only a
  string can be found.
\<close>

fun js_includes :: "string list \<Rightarrow> json option \<Rightarrow> bool" where
  "js_includes names (Some (JStr s)) = (s \<in> set names)"
| "js_includes names v = False"

text \<open>\<open>xs.indexOf(x)\<close> for an \<open>x\<close> that occurs in \<open>xs\<close>.\<close>

fun indexOf :: "string list \<Rightarrow> string \<Rightarrow> nat" where
  "indexOf [] x = 0"
| "indexOf (y # ys) x = (if x = y then 0 else Suc (indexOf ys x))"

subsection \<open>\<open>JSON.stringify(v, null, 4)\<close>\<close>

definition hex :: "nat \<Rightarrow> char" where
  "hex n = (if n < 10 then char_of (48 + n) else char_of (87 + n))"

definition quote_char :: "char \<Rightarrow> string" where
  "quote_char c =
     (if c = DQ then [BSL, DQ]
      else if c = BSL then [BSL, BSL]
      else if c = CHR 0x08 then [BSL, CHR ''b'']
      else if c = CHR 0x09 then [BSL, CHR ''t'']
      else if c = CHR 0x0A then [BSL, CHR ''n'']
      else if c = CHR 0x0C then [BSL, CHR ''f'']
      else if c = CHR 0x0D then [BSL, CHR ''r'']
      else if (of_char c :: nat) < 32
        then [BSL, CHR ''u'', CHR ''0'', CHR ''0'', hex (of_char c div 16), hex (of_char c mod 16)]
      else [c])"

definition quote :: "string \<Rightarrow> string" where
  "quote s = [DQ] @ concat (map quote_char s) @ [DQ]"

definition gap :: string where
  "gap = ''    ''"

text \<open>\<open>stringify ind v\<close> prints \<open>v\<close> at the current indentation \<open>ind\<close>.\<close>

fun stringify :: "string \<Rightarrow> json \<Rightarrow> string" where
  "stringify ind JNull = ''null''"
| "stringify ind (JBool b) = (if b then ''true'' else ''false'')"
| "stringify ind (JNum n) = n"
| "stringify ind (JStr s) = quote s"
| "stringify ind (JArr xs) =
     (if xs = [] then ''[]''
      else ''['' @ [NL] @ (ind @ gap)
           @ join ('','' @ [NL] @ (ind @ gap)) (map (stringify (ind @ gap)) xs)
           @ [NL] @ ind @ '']'')"
| "stringify ind (JObj kvs) =
     (if kvs = [] then ''{}''
      else ''{'' @ [NL] @ (ind @ gap)
           @ join ('','' @ [NL] @ (ind @ gap))
               (map (\<lambda>kv. quote (fst kv) @ '': '' @ stringify (ind @ gap) (snd kv)) kvs)
           @ [NL] @ ind @ ''}'')"

definition JSON_stringify4 :: "json \<Rightarrow> string" where
  "JSON_stringify4 v = stringify [] v"

section \<open>Reference data and configuration\<close>

text \<open>
  The packages \<open>countries-list\<close> and \<open>all-the-cities\<close>, the template catalogue built
  from the \<open>templates\<close> directory and the command-line flag are the environment of a
  run. \<open>countries\<close> is listed in the order of \<open>Object.entries\<close>; \<open>templates\<close> maps a
  language code to its template names. A key that is absent from a table reads as
  \<open>undefined\<close>. A language named like a member of \<open>Object.prototype\<close> cannot be
  in the catalogue, and asking for one throws on \<open>includes\<close> as an absent language
  does; the country codes of the gazetteer are ISO codes, none of them such a name.
\<close>

record country =
  name :: string
  native :: string

record city =
  city_name :: string
  city_country :: string

record env =
  autofix :: bool
  countries :: "(string \<times> country) list"
  cities :: "city list"
  templates :: "(string \<times> string list) list"

definition country_name_variations :: "string list" where
  "country_name_variations = [''United States of America'', ''The Netherlands'', ''Republic of Singapore'']"

definition variation_countrycodes :: "string list" where
  "variation_countrycodes = [''US'', ''NL'', ''SG'']"

section \<open>Country matcher\<close>

definition isLastLineCountry :: "(string \<times> country) list \<Rightarrow> string \<Rightarrow> string list \<Rightarrow> bool" where
  "isLastLineCountry cs last_line variations \<longleftrightarrow>
     list_ex (\<lambda>(countrycode, v).
        (countrycode \<notin> set variation_countrycodes \<and> name v = last_line) \<or> native v = last_line) cs
     \<or> last_line \<in> set variations"

section \<open>Record rule engine\<close>

text \<open>
  The city pattern \<open>/[\d ]* ([\S ]*)/\<close>, read at one start position: \<open>[\d ]*\<close> takes
  the longest run of digits and spaces and gives characters back until a space
  follows, so it stops before the last space of the run; the group then takes every
  following character that is a space or not white space. Without a space in the run
  there is no match at this position.
\<close>

definition is_digit :: "char \<Rightarrow> bool" where
  "is_digit c \<longleftrightarrow> c \<in> set ''0123456789''"

definition city_match_at :: "string \<Rightarrow> string option" where
  "city_match_at s =
     (let run = takeWhile (\<lambda>c. is_digit c \<or> c = CHR '' '') s;
          upto_space = rev (dropWhile is_digit (rev run))
      in if upto_space = [] then None
         else Some (takeWhile (\<lambda>c. \<not> is_ws c \<or> c = CHR '' '') (drop (length upto_space) s)))"

text \<open>
  \<open>exec\<close> tries the start positions from left to right; the result is the first group
  of the first match, \<open>None\<close> when \<open>exec\<close> returns \<open>null\<close>.
\<close>

fun city_exec :: "string \<Rightarrow> string option" where
  "city_exec [] = city_match_at []"
| "city_exec (c # cs) =
     (case city_match_at (c # cs) of Some g \<Rightarrow> Some g | None \<Rightarrow> city_exec cs)"

text \<open>
  Inside \<open>additional_checks\<close> a finding is a message with an optional reference; the
  function tags each with its type when it returns.
\<close>

record finding =
  msg :: string
  ref :: "string option"

datatype evtype = Error | Autofix

datatype detail = ParseFailure string | SchemaFailure "string list"

record event = finding +
  error :: "detail option"
  type :: evtype

text \<open>The three variables that \<open>additional_checks\<close> mutates.\<close>

record checks_state =
  af_json :: json
  errors :: "finding list"
  autofixes :: "finding list"

definition push_error :: "finding \<Rightarrow> checks_state \<Rightarrow> checks_state" where
  "push_error e st = st\<lparr>errors := errors st @ [e]\<rparr>"

definition push_autofix :: "finding \<Rightarrow> checks_state \<Rightarrow> checks_state" where
  "push_autofix a st = st\<lparr>autofixes := autofixes st @ [a]\<rparr>"

subsection \<open>Required elements (lines 110 to 118)\<close>

text \<open>
  \<open>els.some((el) => el.type === 'name')\<close> visits the elements in order and stops at the
  first hit; reading \<open>type\<close> of a \<open>null\<close> element throws.
\<close>

fun some_type_name :: "json list \<Rightarrow> error + bool" where
  "some_type_name [] = Inr False"
| "some_type_name (el # els) =
     (if el = JNull then Inl (TypeError ''el.type'')
      else if js_get el ''type'' = Some (JStr ''name'') then Inr True
      else some_type_name els)"

definition required_elements_finding :: finding where
  "required_elements_finding =
     \<lparr>msg = ''Record has required elements but no 'name' element.'',
      ref = Some ''https://github.com/datenanfragen/data#required-elements''\<rparr>"

definition required_elements_check :: "json \<Rightarrow> checks_state \<Rightarrow> error + checks_state" where
  "required_elements_check json st =
     (if truthy (js_get json ''required-elements'') then
        (case js_get json ''required-elements'' of
           Some (JArr els) \<Rightarrow>
             (case some_type_name els of
                Inl e \<Rightarrow> Inl e
              | Inr has_name_field \<Rightarrow>
                  Inr (if \<not> has_name_field then push_error required_elements_finding st else st))
         | _ \<Rightarrow> Inl (TypeError ''json[required-elements].some''))
      else Inr st)"

subsection \<open>Custom templates (lines 120 to 142)\<close>

definition custom_template_props :: "string list" where
  "custom_template_props =
     [''custom-access-template'', ''custom-erasure-template'',
      ''custom-rectification-template'', ''custom-objection-template'']"

definition template_language_finding :: "json \<Rightarrow> string \<Rightarrow> finding" where
  "template_language_finding json prp =
     \<lparr>msg = ''Record specifies '' @ [SQ] @ prp @ [SQ] @ '' of '' @ [SQ] @ js_str (js_get json prp) @ [SQ]
            @ '' but that isn't available for 'request-language' of '' @ [SQ]
            @ js_str (js_get json ''request-language'') @ [SQ] @ ''.'',
      ref = None\<rparr>"

definition template_english_finding :: "json \<Rightarrow> string \<Rightarrow> finding" where
  "template_english_finding json prp =
     \<lparr>msg = ''Record specifies '' @ [SQ] @ prp @ [SQ] @ '' of '' @ [SQ] @ js_str (js_get json prp) @ [SQ]
            @ '' but that isn't available in English.'',
      ref = Some ''https://github.com/datenanfragen/data/issues/1120''\<rparr>"

text \<open>
  One round of the loop over the four properties. \<open>templates[lang].includes\<close> throws
  when the catalogue has no entry for \<open>lang\<close>.
\<close>

definition template_check ::
  "(string \<times> string list) list \<Rightarrow> json \<Rightarrow> string \<Rightarrow> checks_state \<Rightarrow> error + checks_state" where
  "template_check tpls json prp st =
     (if truthy (js_get json prp) then
        (if truthy (js_get json ''request-language'') then
           (case map_of tpls (js_str (js_get json ''request-language'')) of
              None \<Rightarrow> Inl (TypeError ''templates[request-language].includes'')
            | Some names \<Rightarrow>
                Inr (if \<not> js_includes names (js_get json prp)
                     then push_error (template_language_finding json prp) st else st))
         else
           (case map_of tpls ''en'' of
              None \<Rightarrow> Inl (TypeError ''templates[en].includes'')
            | Some names \<Rightarrow>
                Inr (if \<not> js_includes names (js_get json prp)
                     then push_error (template_english_finding json prp) st else st)))
      else Inr st)"

fun template_checks ::
  "(string \<times> string list) list \<Rightarrow> json \<Rightarrow> string list \<Rightarrow> checks_state \<Rightarrow> error + checks_state" where
  "template_checks tpls json [] st = Inr st"
| "template_checks tpls json (prp # prps) st =
     (case template_check tpls json prp st of
        Inl e \<Rightarrow> Inl e
      | Inr st' \<Rightarrow> template_checks tpls json prps st')"

subsection \<open>Quality (lines 144 to 151)\<close>

definition quality_finding :: finding where
  "quality_finding =
     \<lparr>msg = ''Record has `quality` of `tested` but doesn't specify `required-elements`.'',
      ref = Some ''https://github.com/datenanfragen/data/issues/811''\<rparr>"

definition quality_check :: "json \<Rightarrow> checks_state \<Rightarrow> checks_state" where
  "quality_check json st =
     (if js_get json ''quality'' = Some (JStr ''tested'') then
        (if \<not> truthy (js_get json ''required-elements'') then push_error quality_finding st else st)
      else st)"

subsection \<open>Whitespace (lines 152 to 163)\<close>

definition whitespace_finding :: "string \<Rightarrow> finding" where
  "whitespace_finding key =
     \<lparr>msg = ''Seems like `'' @ key @ ''` isn't trimmed, i.e. it contains leading or trailing whitespace.'',
      ref = None\<rparr>"

definition whitespace_step :: "bool \<Rightarrow> json \<Rightarrow> string \<Rightarrow> checks_state \<Rightarrow> checks_state" where
  "whitespace_step af json key st =
     (case js_get json key of
        Some (JStr s) \<Rightarrow>
          (if s \<noteq> trim s then
             (let st1 = push_error (whitespace_finding key) st
              in if af then
                   push_autofix \<lparr>msg = ''trimmed '' @ key, ref = None\<rparr>
                     (st1\<lparr>af_json := js_set (af_json st1) key (JStr (trim s))\<rparr>)
                 else st1)
           else st)
      | _ \<Rightarrow> st)"

definition whitespace_check :: "bool \<Rightarrow> json \<Rightarrow> checks_state \<Rightarrow> checks_state" where
  "whitespace_check af json st = fold (whitespace_step af json) (object_keys json) st"

subsection \<open>Address (lines 165 to 208)\<close>

text \<open>\<open>json['address'].split('\n')\<close> throws unless \<open>address\<close> is a string.\<close>

definition address_lines_of :: "json \<Rightarrow> error + string list" where
  "address_lines_of json =
     (case js_get json ''address'' of
        Some (JStr a) \<Rightarrow> Inr (split NL a)
      | _ \<Rightarrow> Inl (TypeError ''json[address].split''))"

definition line_count_finding :: finding where
  "line_count_finding =
     \<lparr>msg = ''`address` is not formatted with newlines ('' @ [BSL] @ ''n).'', ref = None\<rparr>"

definition line_count_check :: "string list \<Rightarrow> checks_state \<Rightarrow> checks_state" where
  "line_count_check address_lines st =
     (if length address_lines < 2 then push_error line_count_finding st else st)"

definition line_trim_finding :: finding where
  "line_trim_finding =
     \<lparr>msg = ''`address` isn't trimmed (linewise), i.e. it contains unnecessary whitespace.'',
      ref = None\<rparr>"

definition line_trim_check :: "bool \<Rightarrow> string list \<Rightarrow> checks_state \<Rightarrow> checks_state" where
  "line_trim_check af address_lines st =
     (if list_ex (\<lambda>line. line \<noteq> trim line) address_lines then
        (let st1 = push_error line_trim_finding st
         in if af then
              push_autofix \<lparr>msg = ''trimmed address'', ref = None\<rparr>
                (st1\<lparr>af_json := js_set (af_json st1) ''address'' (JStr (join [NL] (map trim address_lines)))\<rparr>)
            else st1)
      else st)"

definition name_finding :: finding where
  "name_finding = \<lparr>msg = ''Record includes `name` in the `address`.'', ref = None\<rparr>"

definition name_autofix :: finding where
  "name_autofix = \<lparr>msg = ''Removed duplicate name in first line of address'', ref = None\<rparr>"

text \<open>
  Lines 177 to 181. The error looks for \<open>name\<close> among the lines as they are; the fix
  compares the trimmed first line. \<open>address_lines[0]\<close> is read in auto-fix mode only.
\<close>

definition name_check :: "bool \<Rightarrow> json \<Rightarrow> string list \<Rightarrow> checks_state \<Rightarrow> error + checks_state" where
  "name_check af json address_lines st =
     (let st1 = (if js_includes address_lines (js_get json ''name'') then push_error name_finding st else st)
      in if af then
           (case address_lines of
              [] \<Rightarrow> Inl (TypeError ''address_lines[0].trim'')
            | first_line # rest \<Rightarrow>
                (if js_get json ''name'' = Some (JStr (trim first_line)) then
                   Inr (push_autofix name_autofix
                          (st1\<lparr>af_json := js_set (af_json st1) ''address'' (JStr (join [NL] rest))\<rparr>))
                 else Inr st1))
         else Inr st1)"

definition country_finding :: "string \<Rightarrow> finding" where
  "country_finding last_line =
     \<lparr>msg = ''Last line of `address` ('' @ last_line @ '') should be a country. ''
            @ ''If you feel like this error is a mistake, please let us know! ''
            @ ''We get our list of countries from https://www.npmjs.com/package/countries-list. ''
            @ ''We've decided on specific variations for some countries: (''
            @ join '', '' country_name_variations @ '').'',
      ref = None\<rparr>"

text \<open>
  The name appended for a guessed country code (lines 201 to 203);
  \<open>countries[code].name\<close> throws when the code is not in the country list.
\<close>

definition guessed_country_name :: "(string \<times> country) list \<Rightarrow> string \<Rightarrow> error + string" where
  "guessed_country_name cs code =
     (if code \<in> set variation_countrycodes
      then Inr (country_name_variations ! indexOf variation_countrycodes code)
      else (case map_of cs code of
              None \<Rightarrow> Inl (TypeError ''countries[guess.country].name'')
            | Some c \<Rightarrow> Inr (name c)))"

text \<open>
  Lines 187 to 208. \<open>exec(last_line)[1]\<close> throws when the pattern does not match;
  \<open>af_json.address += s\<close> concatenates to whatever \<open>af_json.address\<close> reads.
\<close>

definition country_check :: "env \<Rightarrow> string list \<Rightarrow> checks_state \<Rightarrow> error + checks_state" where
  "country_check ev address_lines st =
     (if address_lines = [] then Inl (TypeError ''address_lines[length - 1].trim'')
      else
        (let last_line = trim (last address_lines);
             last_line_is_country = isLastLineCountry (countries ev) last_line country_name_variations
         in if \<not> last_line_is_country then
              (let st1 = push_error (country_finding last_line) st
               in if autofix ev then
                    (case city_exec last_line of
                       None \<Rightarrow> Inl (TypeError ''exec(last_line)[1]'')
                     | Some city \<Rightarrow>
                         (case filter (\<lambda>x. city_name x = city) (cities ev) of
                            [] \<Rightarrow> Inr st1
                          | guess # _ \<Rightarrow>
                              (case guessed_country_name (countries ev) (city_country guess) of
                                 Inl e \<Rightarrow> Inl e
                               | Inr cn \<Rightarrow>
                                   Inr (push_autofix
                                          \<lparr>msg = ''guessed missing country: '' @ city_country guess, ref = None\<rparr>
                                          (st1\<lparr>af_json :=
                                                 js_set (af_json st1) ''address''
                                                   (JStr (js_str (js_get (af_json st1) ''address'') @ [NL] @ cn))\<rparr>)))))
                  else Inr st1)
            else Inr st))"

subsection \<open>The whole function\<close>

text \<open>
  \<open>run_checks\<close> is \<open>additional_checks\<close> up to line 208: the state after all rules.
  \<open>af_json\<close> starts as \<open>JSON.parse(JSON.stringify(json))\<close>, a copy equal to \<open>json\<close> by
  value. Reading a property of \<open>null\<close> throws on line 111.
\<close>

definition run_checks :: "env \<Rightarrow> json \<Rightarrow> error + checks_state" where
  "run_checks ev json =
     (if json = JNull then Inl (TypeError ''json[required-elements]'')
      else
        (case required_elements_check json \<lparr>af_json = json, errors = [], autofixes = []\<rparr> of
           Inl e \<Rightarrow> Inl e
         | Inr st1 \<Rightarrow>
        (case template_checks (templates ev) json custom_template_props st1 of
           Inl e \<Rightarrow> Inl e
         | Inr st2 \<Rightarrow>
        (let st4 = whitespace_check (autofix ev) json (quality_check json st2) in
        (case address_lines_of json of
           Inl e \<Rightarrow> Inl e
         | Inr address_lines \<Rightarrow>
        (let st6 = line_trim_check (autofix ev) address_lines (line_count_check address_lines st4) in
        (case name_check (autofix ev) json address_lines st6 of
           Inl e \<Rightarrow> Inl e
         | Inr st7 \<Rightarrow> country_check ev address_lines st7)))))))"

text \<open>
  \<open>json !== af_json\<close> on line 209 compares references. \<open>af_json\<close> is the object that
  \<open>JSON.parse\<close> built on line 105, so for an object or an array the two operands are
  different references whatever they hold; primitives are compared by value.
\<close>

fun strict_neq_copy :: "json \<Rightarrow> json \<Rightarrow> bool" where
  "strict_neq_copy (JObj kvs) w = True"
| "strict_neq_copy (JArr xs) w = True"
| "strict_neq_copy v w = (v \<noteq> w)"

definition to_event :: "evtype \<Rightarrow> finding \<Rightarrow> event" where
  "to_event t fd = \<lparr>msg = msg fd, ref = ref fd, error = None, type = t\<rparr>"

definition returnevents :: "checks_state \<Rightarrow> event list" where
  "returnevents st = map (to_event Autofix) (autofixes st) @ map (to_event Error) (errors st)"

text \<open>The disk maps a path to the content of the file.\<close>

type_synonym disk = "string \<Rightarrow> string option"

definition additional_checks :: "env \<Rightarrow> json \<Rightarrow> string \<Rightarrow> disk \<Rightarrow> error + (event list \<times> disk)" where
  "additional_checks ev json f d =
     (case run_checks ev json of
        Inl e \<Rightarrow> Inl e
      | Inr st \<Rightarrow>
          Inr (returnevents st,
               if autofix ev \<and> strict_neq_copy json (af_json st)
               then d(f \<mapsto> JSON_stringify4 (af_json st) @ [NL])
               else d))"

section \<open>File walker\<close>

text \<open>
  \<open>JSON.parse\<close> and \<open>glob.sync\<close> belong to the platform: \<open>parse\<close> returns the parsed
  value or the error it throws, \<open>glob_sync\<close> the paths that match a pattern. A compiled
  schema returns \<open>None\<close> for a valid record and its error list otherwise.
\<close>

record platform =
  parse :: "string \<Rightarrow> string + json"
  glob_sync :: "string \<Rightarrow> string list"

type_synonym schema = "json \<Rightarrow> string list option"

type_synonym checks = "json \<Rightarrow> string \<Rightarrow> disk \<Rightarrow> error + (event list \<times> disk)"

type_synonym events = "string \<Rightarrow> event list option"

definition add_event :: "string \<Rightarrow> event \<Rightarrow> events \<Rightarrow> events" where
  "add_event f e evs = evs(f \<mapsto> (case evs f of None \<Rightarrow> [] | Some l \<Rightarrow> l) @ [e])"

definition endsWith :: "string \<Rightarrow> string \<Rightarrow> bool" where
  "endsWith s suffix \<longleftrightarrow> length suffix \<le> length s \<and> drop (length s - length suffix) s = suffix"

text \<open>\<open>path.basename\<close>: the part after the last slash, trailing slashes aside.\<close>

definition basename :: "string \<Rightarrow> string" where
  "basename p =
     rev (takeWhile (\<lambda>c. c \<noteq> CHR ''/'') (dropWhile (\<lambda>c. c = CHR ''/'') (rev p)))"

definition newline_event :: event where
  "newline_event =
     \<lparr>msg = ''File doesn't end with exactly one newline.'', ref = None, error = None, type = Error\<rparr>"

definition parse_event :: "string \<Rightarrow> event" where
  "parse_event err =
     \<lparr>msg = ''Parsing JSON failed.'' @ [NL], ref = None, error = Some (ParseFailure err), type = Error\<rparr>"

definition schema_event :: "string list \<Rightarrow> event" where
  "schema_event errs =
     \<lparr>msg = ''Schema validation failed.'' @ [NL], ref = None, error = Some (SchemaFailure errs),
      type = Error\<rparr>"

definition slug_event :: "string \<Rightarrow> json \<Rightarrow> event" where
  "slug_event f json =
     \<lparr>msg = ''Filename '' @ [DQ] @ basename f @ [DQ] @ '' does not match slug '' @ [DQ]
            @ js_str (js_get json ''slug'') @ [DQ] @ ''.'',
      ref = None, error = None, type = Error\<rparr>"

text \<open>
  The body of \<open>files.forEach\<close> (lines 59 to 86) for one file. Only the parse error is
  caught; any other exception leaves the callback and ends the run.
\<close>

definition process_file ::
  "platform \<Rightarrow> schema \<Rightarrow> checks option \<Rightarrow> string \<Rightarrow> events \<times> disk \<Rightarrow> error + (events \<times> disk)" where
  "process_file pf sch chk f s =
     (case s of (evs, d) \<Rightarrow>
     (case d f of
        None \<Rightarrow> Inl (ENOENT f)
      | Some file_content \<Rightarrow>
          (let evs1 = (if \<not> endsWith file_content (''}'' @ [NL]) then add_event f newline_event evs else evs)
           in case parse pf file_content of
                Inl err \<Rightarrow> Inr (add_event f (parse_event err) evs1, d)
              | Inr json \<Rightarrow>
                  (let evs2 = (case sch json of None \<Rightarrow> evs1 | Some errs \<Rightarrow> add_event f (schema_event errs) evs1)
                   in if json = JNull then Inl (TypeError ''json.slug'')
                      else
                        (let evs3 = (if js_str (js_get json ''slug'') @ ''.json'' \<noteq> basename f
                                     then add_event f (slug_event f json) evs2 else evs2)
                         in case chk of
                              None \<Rightarrow> Inr (evs3, d)
                            | Some additional \<Rightarrow>
                                (case additional json f d of
                                   Inl e \<Rightarrow> Inl e
                                 | Inr (tmp, d') \<Rightarrow>
                                     Inr (evs3(f \<mapsto> (case evs3 f of None \<Rightarrow> tmp | Some l \<Rightarrow> l @ tmp)), d')))))))"

text \<open>
  The loop over the files. The result is the disk as the run leaves it, with the
  exception that ended the run or the findings that \<open>print\<close> receives.
\<close>

fun validator_files ::
  "platform \<Rightarrow> schema \<Rightarrow> checks option \<Rightarrow> string list \<Rightarrow> events \<times> disk \<Rightarrow> disk \<times> (error + events)" where
  "validator_files pf sch chk [] s = (snd s, Inr (fst s))"
| "validator_files pf sch chk (f # fs) s =
     (case process_file pf sch chk f s of
        Inl e \<Rightarrow> (snd s, Inl e)
      | Inr s' \<Rightarrow> validator_files pf sch chk fs s')"

definition validator ::
  "platform \<Rightarrow> string \<Rightarrow> schema \<Rightarrow> checks option \<Rightarrow> disk \<Rightarrow> disk \<times> (error + events)" where
  "validator pf dir sch chk d =
     validator_files pf sch chk (glob_sync pf (dir @ ''/*.json'')) (Map.empty, d)"

text \<open>Lines 229 and 230: the companies with the rule engine, then the authorities without.\<close>

definition main ::
  "env \<Rightarrow> platform \<Rightarrow> schema \<Rightarrow> schema \<Rightarrow> disk \<Rightarrow> disk \<times> (error + (events \<times> events))" where
  "main ev pf cdb_schema adb_schema d =
     (case validator pf ''companies'' cdb_schema (Some (additional_checks ev)) d of
        (d1, Inl e) \<Rightarrow> (d1, Inl e)
      | (d1, Inr evs1) \<Rightarrow>
          (case validator pf ''supervisory-authorities'' adb_schema None d1 of
             (d2, Inl e) \<Rightarrow> (d2, Inl e)
           | (d2, Inr evs2) \<Rightarrow> (d2, Inr (evs1, evs2))))"

section \<open>Vocabulary of the properties\<close>

text \<open>
  The country matcher as the specification words it: the exclusion set applies to the
  official and to the native name alike.
\<close>

definition isCountryLine_spec :: "(string \<times> country) list \<Rightarrow> string \<Rightarrow> string list \<Rightarrow> bool" where
  "isCountryLine_spec cs txt variations \<longleftrightarrow>
     list_ex (\<lambda>(countrycode, v).
        countrycode \<notin> set variation_countrycodes \<and> (name v = txt \<or> native v = txt)) cs
     \<or> txt \<in> set variations"

text \<open>The state in which the first rule starts (lines 105 to 109).\<close>

definition empty_state :: "json \<Rightarrow> checks_state" where
  "empty_state json = \<lparr>af_json = json, errors = [], autofixes = []\<rparr>"

text \<open>The reference link that only the required-elements finding carries.\<close>

definition required_elements_ref :: "string option" where
  "required_elements_ref = Some ''https://github.com/datenanfragen/data#required-elements''"

text \<open>\<open>required-elements\<close> is a list, empty or not, without an element of type \<open>name\<close>.\<close>

definition lacks_name_element :: "json \<Rightarrow> bool" where
  "lacks_name_element json =
     (case js_get json ''required-elements'' of
        Some (JArr els) \<Rightarrow> \<not> list_ex (\<lambda>el. js_get el ''type'' = Some (JStr ''name'')) els
      | _ \<Rightarrow> False)"

text \<open>The findings of a state that carry the required-elements link.\<close>

definition ref_errors :: "checks_state \<Rightarrow> finding list" where
  "ref_errors st = filter (\<lambda>e. ref e = required_elements_ref) (errors st)"

definition ref_autofixes :: "checks_state \<Rightarrow> finding list" where
  "ref_autofixes st = filter (\<lambda>e. ref e = required_elements_ref) (autofixes st)"

text \<open>
  A field holds a value when it is there and is neither \<open>null\<close>, \<open>false\<close>, \<open>0\<close> nor
  the empty string.
\<close>

definition holds_value :: "json option \<Rightarrow> bool" where
  "holds_value v \<longleftrightarrow>
     v \<noteq> None \<and> v \<noteq> Some JNull \<and> v \<noteq> Some (JBool False) \<and> v \<noteq> Some (JNum ''0'')
     \<and> v \<noteq> Some (JStr [])"

text \<open>A catalogue entry contains a value when the value is one of its names.\<close>

definition entry_contains :: "string list \<Rightarrow> json option \<Rightarrow> bool" where
  "entry_contains names v \<longleftrightarrow> (\<exists>s \<in> set names. v = Some (JStr s))"

text \<open>
  The language whose catalogue entry the template rule consults: \<open>request-language\<close>,
  read as a property key, if the field holds a value, else \<open>en\<close>.
\<close>

definition effective_language :: "json \<Rightarrow> string" where
  "effective_language json =
     (if holds_value (js_get json ''request-language'') then js_str (js_get json ''request-language'')
      else ''en'')"

text \<open>
  The custom-template rule as worded with ``present'': an error is due for a property
  that the record has, whatever its value, when the entry does not contain the value.
\<close>

definition template_error_claimed :: "string list \<Rightarrow> json \<Rightarrow> string \<Rightarrow> bool" where
  "template_error_claimed names json prp \<longleftrightarrow>
     js_get json prp \<noteq> None \<and> \<not> entry_contains names (js_get json prp)"

text \<open>\<open>s.startsWith(p)\<close>; a finding is about a property when its message starts by naming it.\<close>

fun startsWith :: "string \<Rightarrow> string \<Rightarrow> bool" where
  "startsWith s [] = True"
| "startsWith [] (p # ps) = False"
| "startsWith (c # cs) (p # ps) = (c = p \<and> startsWith cs ps)"

definition template_remark :: "string \<Rightarrow> string" where
  "template_remark prp = ''Record specifies '' @ [SQ] @ prp @ [SQ]"

definition about_property :: "string \<Rightarrow> 'a finding_scheme \<Rightarrow> bool" where
  "about_property prp e = startsWith (msg e) (template_remark prp)"

text \<open>
  The error the rule is to return for a property: the reference link is there exactly
  when \<open>request-language\<close> holds no value.
\<close>

definition template_error :: "json \<Rightarrow> string \<Rightarrow> event" where
  "template_error json prp =
     \<lparr>msg = template_remark prp @ '' of '' @ [SQ] @ js_str (js_get json prp) @ [SQ]
            @ (if holds_value (js_get json ''request-language'')
               then '' but that isn't available for 'request-language' of '' @ [SQ]
                    @ js_str (js_get json ''request-language'') @ [SQ] @ ''.''
               else '' but that isn't available in English.''),
      ref = (if holds_value (js_get json ''request-language'') then None
             else Some ''https://github.com/datenanfragen/data/issues/1120''),
      error = None, type = Error\<rparr>"

text \<open>The finding that lines 131 and 136 push for a property.\<close>

definition template_finding_for :: "json \<Rightarrow> string \<Rightarrow> finding" where
  "template_finding_for json prp =
     (if holds_value (js_get json ''request-language'') then template_language_finding json prp
      else template_english_finding json prp)"

text \<open>The findings of a state that are about a property, as the function returns them.\<close>

definition property_errors :: "string \<Rightarrow> checks_state \<Rightarrow> event list" where
  "property_errors prp st = filter (about_property prp) (map (to_event Error) (errors st))"

definition property_autofixes :: "string \<Rightarrow> checks_state \<Rightarrow> event list" where
  "property_autofixes prp st = filter (about_property prp) (map (to_event Autofix) (autofixes st))"

text \<open>The fixed copy is an object; the duplicate-name error is among the errors.\<close>

fun is_object :: "json \<Rightarrow> bool" where
  "is_object (JObj kvs) = True"
| "is_object v = False"

definition has_name_error :: "checks_state \<Rightarrow> bool" where
  "has_name_error st \<longleftrightarrow> name_finding \<in> set (errors st)"

text \<open>
  What an auto-fix pass makes of a field, and of the address lines before a country is
  appended: the first line goes if, trimmed, it equals \<open>name\<close>; otherwise every line
  is trimmed.
\<close>

fun trim_value :: "json \<Rightarrow> json" where
  "trim_value (JStr s) = JStr (trim s)"
| "trim_value v = v"

definition fixed_lines :: "json \<Rightarrow> string list" where
  "fixed_lines json =
     (case address_lines_of json of
        Inr (first_line # rest) \<Rightarrow>
          (if js_get json ''name'' = Some (JStr (trim first_line)) then rest
           else map trim (first_line # rest))
      | _ \<Rightarrow> [])"

text \<open>The whitespace loop of an auto-fix run trims every string field of the fixed copy.\<close>

definition trimmed_upto :: "json \<Rightarrow> string set \<Rightarrow> checks_state \<Rightarrow> bool" where
  "trimmed_upto json S st \<longleftrightarrow>
     is_object (af_json st)
     \<and> (\<forall>k. js_get (af_json st) k
              = (if k \<in> S then map_option trim_value (js_get json k) else js_get json k))"

text \<open>The country names of the reference list are non-empty, trimmed and on one line.\<close>

definition plain_country_names :: "(string \<times> country) list \<Rightarrow> bool" where
  "plain_country_names cs \<longleftrightarrow>
     list_all (\<lambda>(code, c). trim (name c) = name c \<and> name c \<noteq> [] \<and> NL \<notin> set (name c)) cs"

text \<open>
  A record settles when its fixed address lines are trimmed, begin and end with a
  non-blank line and do not begin with the trimmed \<open>name\<close>, and when
  \<open>request-language\<close>, if a string, is trimmed.
\<close>

definition settles :: "json \<Rightarrow> bool" where
  "settles json \<longleftrightarrow>
     (let L = fixed_lines json
      in L \<noteq> [] \<and> list_all (\<lambda>l. trim l = l) L \<and> hd L \<noteq> [] \<and> last L \<noteq> []
         \<and> (case js_get json ''name'' of Some (JStr n) \<Rightarrow> hd L \<noteq> trim n | _ \<Rightarrow> True))
     \<and> (case js_get json ''request-language'' of Some (JStr s) \<Rightarrow> trim s = s | _ \<Rightarrow> True)"

section \<open>Example data\<close>

definition example_countries :: "(string \<times> country) list" where
  "example_countries =
     [(''DE'', \<lparr>name = ''Germany'', native = ''Deutschland''\<rparr>),
      (''NL'', \<lparr>name = ''Netherlands'', native = ''Nederland''\<rparr>),
      (''US'', \<lparr>name = ''United States'', native = ''United States''\<rparr>)]"

definition example_env :: env where
  "example_env =
     \<lparr>autofix = True,
      countries = example_countries,
      cities = [\<lparr>city_name = ''Berlin'', city_country = ''DE''\<rparr>],
      templates = [(''en'', [''access-default''])]\<rparr>"

definition report_env :: env where
  "report_env = example_env\<lparr>autofix := False\<rparr>"


definition acme_path :: string where
  "acme_path = ''companies/acme.json''"

text \<open>A record with an empty \<open>required-elements\<close> list and nothing else to report.\<close>

definition record_empty_elements :: json where
  "record_empty_elements =
     JObj [(''slug'', JStr ''acme''), (''name'', JStr ''Acme''),
           (''address'', JStr (''Musterstr. 1'' @ [NL] @ ''Germany'')),
           (''required-elements'', JArr [])]"

definition record_email_element :: json where
  "record_email_element =
     JObj [(''slug'', JStr ''acme''), (''name'', JStr ''Acme''),
           (''address'', JStr (''Musterstr. 1'' @ [NL] @ ''Germany'')),
           (''required-elements'', JArr [JObj [(''type'', JStr ''email'')]])]"

definition record_custom_template :: json where
  "record_custom_template =
     JObj [(''slug'', JStr ''acme''), (''custom-access-template'', JStr ''access-acme'')]"

text \<open>A complete record with a custom template that the catalogue lacks, and one with a blank one.\<close>

definition record_acme_template :: json where
  "record_acme_template =
     JObj [(''slug'', JStr ''acme''), (''name'', JStr ''Acme''),
           (''address'', JStr (''Musterstr. 1'' @ [NL] @ ''Germany'')),
           (''custom-access-template'', JStr ''access-acme'')]"

definition record_blank_template :: json where
  "record_blank_template =
     JObj [(''slug'', JStr ''acme''), (''name'', JStr ''Acme''),
           (''address'', JStr (''Musterstr. 1'' @ [NL] @ ''Germany'')),
           (''custom-access-template'', JStr [])]"

text \<open>A record whose padded first line is the name and whose last line is a bare city.\<close>

definition record_padded_city :: json where
  "record_padded_city =
     JObj [(''slug'', JStr ''acme''), (''name'', JStr ''Acme''),
           (''address'', JStr ('' Acme'' @ [NL] @ ''Musterstr. 1'' @ [NL] @ ''Berlin''))]"

definition record_padded_name :: json where
  "record_padded_name =
     JObj [(''slug'', JStr ''acme''), (''name'', JStr ''Acme''),
           (''address'', JStr ('' Acme'' @ [NL] @ ''Musterstr. 1'' @ [NL] @ ''Germany''))]"

definition record_scenario :: json where
  "record_scenario =
     JObj [(''slug'', JStr ''acme''), (''name'', JStr ''Acme''),
           (''address'', JStr (''Acme'' @ [NL] @ ''Musterstr. 1'' @ [NL] @ ''Berlin'')),
           (''required-elements'', JArr [JObj [(''type'', JStr ''email'')]]),
           (''quality'', JStr ''tested'')]"

definition scenario_file :: string where
  "scenario_file =
     ''{'' @ [DQ] @ ''slug'' @ [DQ] @ '':'' @ [DQ] @ ''acme'' @ [DQ] @ '','' @ [DQ] @ ''name'' @ [DQ] @ '':'' @ [DQ] @ ''Acme'' @ [DQ] @ '','' @ [DQ] @ ''address'' @ [DQ] @ '':'' @ [DQ] @ ''Acme'' @ [BSL] @ ''nMusterstr. 1'' @ [BSL] @ ''nBerlin'' @ [DQ] @ '','' @ [DQ] @ ''required-elements'' @ [DQ] @ '':[{'' @ [DQ] @ ''type'' @ [DQ] @ '':'' @ [DQ] @ ''email'' @ [DQ] @ ''}],'' @ [DQ] @ ''quality'' @ [DQ] @ '':'' @ [DQ] @ ''tested'' @ [DQ] @ ''}'' @ [NL]"

definition record_clean :: json where
  "record_clean =
     JObj [(''slug'', JStr ''acme''), (''name'', JStr ''Acme''),
           (''address'', JStr (''Musterstr. 1'' @ [NL] @ ''Germany''))]"

definition clean_file :: string where
  "clean_file =
     ''{'' @ [DQ] @ ''slug'' @ [DQ] @ '':'' @ [DQ] @ ''acme'' @ [DQ] @ '','' @ [DQ] @ ''name'' @ [DQ] @ '':'' @ [DQ] @ ''Acme'' @ [DQ] @ '','' @ [DQ] @ ''address'' @ [DQ] @ '':'' @ [DQ] @ ''Musterstr. 1'' @ [BSL] @ ''nGermany'' @ [DQ] @ ''}'' @ [NL]"

definition record_no_address :: json where
  "record_no_address = JObj [(''slug'', JStr ''acme''), (''name'', JStr ''Acme'')]"

definition record_unknown_language :: json where
  "record_unknown_language =
     JObj [(''slug'', JStr ''acme''), (''name'', JStr ''Acme''),
           (''address'', JStr (''Musterstr. 1'' @ [NL] @ ''Germany'')),
           (''request-language'', JStr ''xx''),
           (''custom-access-template'', JStr ''access-default'')]"

text \<open>A platform with one company file, whose content parses to the given record.\<close>

definition platform_for :: "string \<Rightarrow> json \<Rightarrow> platform" where
  "platform_for content json =
     \<lparr>parse = (\<lambda>s. if s = content then Inr json else Inl ''Unexpected token''),
      glob_sync = (\<lambda>pat. if pat = ''companies/*.json'' then [acme_path] else [])\<rparr>"

definition record_postcode :: json where
  "record_postcode =
     JObj [(''slug'', JStr ''acme''), (''name'', JStr ''Acme''),
           (''address'', JStr (''Acme'' @ [NL] @ ''Musterstr. 1'' @ [NL] @ ''10115 Berlin'')),
           (''required-elements'', JArr [JObj [(''type'', JStr ''email'')]]),
           (''quality'', JStr ''tested'')]"

definition record_postcode_fixed :: json where
  "record_postcode_fixed =
     JObj [(''slug'', JStr ''acme''), (''name'', JStr ''Acme''),
           (''address'', JStr (''Musterstr. 1'' @ [NL] @ ''10115 Berlin'' @ [NL] @ ''Germany'')),
           (''required-elements'', JArr [JObj [(''type'', JStr ''email'')]]),
           (''quality'', JStr ''tested'')]"

definition record_repeated_name :: json where
  "record_repeated_name =
     JObj [(''slug'', JStr ''acme''), (''name'', JStr ''Acme''),
           (''address'', JStr (''Acme'' @ [NL] @ ''Acme'' @ [NL] @ ''Germany''))]"

definition record_repeated_once :: json where
  "record_repeated_once =
     JObj [(''slug'', JStr ''acme''), (''name'', JStr ''Acme''),
           (''address'', JStr (''Acme'' @ [NL] @ ''Germany''))]"

definition record_repeated_twice :: json where
  "record_repeated_twice =
     JObj [(''slug'', JStr ''acme''), (''name'', JStr ''Acme''),
           (''address'', JStr ''Germany'')]"

section \<open>Strings: trimming, splitting and joining\<close>

lemma trim_Nil [simp]: "trim [] = []"
  by (simp add: trim_def)

lemma trim_eq_self_iff: "trim s = s \<longleftrightarrow> s = [] \<or> (\<not> is_ws (hd s) \<and> \<not> is_ws (last s))"
proof (cases "s = []")
  case True
  then show ?thesis by simp
next
  case False
  show ?thesis
  proof
    assume t: "trim s = s"
    have "length (trim s) \<le> length (dropWhile is_ws s)"
      using length_dropWhile_le [of is_ws "rev (dropWhile is_ws s)"] by (simp add: trim_def)
    with t have "length s \<le> length (dropWhile is_ws s)" by simp
    then have d: "dropWhile is_ws s = s"
      by (metis False dropWhile_eq_self_iff length_dropWhile_le dropWhile.simps(2) hd_Cons_tl
          impossible_Cons le_antisym list.sel(1))
    with t have "dropWhile is_ws (rev s) = rev s"
      by (simp add: trim_def) (metis rev_rev_ident)
    with d False show "s = [] \<or> (\<not> is_ws (hd s) \<and> \<not> is_ws (last s))"
      by (simp add: dropWhile_eq_self_iff hd_rev)
  next
    assume "s = [] \<or> (\<not> is_ws (hd s) \<and> \<not> is_ws (last s))"
    with False have "dropWhile is_ws s = s" "dropWhile is_ws (rev s) = rev s"
      by (simp_all add: dropWhile_eq_self_iff hd_rev)
    then show "trim s = s" by (simp add: trim_def)
  qed
qed

lemma trim_idem [simp]: "trim (trim s) = trim s"
proof -
  define t where "t = dropWhile is_ws s"
  define u where "u = dropWhile is_ws (rev t)"
  have ts: "trim s = rev u" by (simp add: trim_def t_def u_def)
  show ?thesis
  proof (cases "u = []")
    case True
    with ts show ?thesis by simp
  next
    case False
    then have hu: "\<not> is_ws (hd u)"
      unfolding u_def by (metis hd_dropWhile)
    from False have tn: "t \<noteq> []" by (auto simp: u_def)
    then have ht: "\<not> is_ws (hd t)"
      unfolding t_def by (metis hd_dropWhile)
    from False have "last u = last (rev t)"
      unfolding u_def
      by (metis dropWhile_eq_Nil_conv dropWhile_last)
    with tn ht have "\<not> is_ws (last u)" by (simp add: last_rev)
    with hu False show ?thesis
      by (simp add: ts trim_eq_self_iff hd_rev last_rev)
  qed
qed

lemma set_trim: "set (trim s) \<subseteq> set s"
  by (auto simp: trim_def dest!: set_dropWhileD)

lemma split_not_Nil [simp]: "split c s \<noteq> []"
  by (induction s) (auto split: list.splits)

lemma split_no_sep: "l \<in> set (split c s) \<Longrightarrow> c \<notin> set l"
  by (induction s arbitrary: l) (auto split: list.splits if_splits)

lemma join_split: "join [c] (split c s) = s"
proof (induction s)
  case Nil
  show ?case by simp
next
  case (Cons x xs)
  show ?case
  proof (cases "x = c")
    case True
    with Cons show ?thesis
      by (cases "split c xs") simp_all
  next
    case False
    with Cons show ?thesis
      by (cases "split c xs"; cases "tl (split c xs)") auto
  qed
qed

lemma split_no_sep_line: "c \<notin> set l \<Longrightarrow> split c l = [l]"
  by (induction l) auto

lemma split_append_sep: "c \<notin> set l \<Longrightarrow> split c (l @ c # s) = l # split c s"
  by (induction l) auto

lemma split_join:
  "ls \<noteq> [] \<Longrightarrow> \<forall>l \<in> set ls. c \<notin> set l \<Longrightarrow> split c (join [c] ls) = ls"
proof (induction ls)
  case Nil
  then show ?case by simp
next
  case (Cons x ls)
  show ?case
  proof (cases ls)
    case Nil
    with Cons.prems show ?thesis by (simp add: split_no_sep_line)
  next
    case (Cons y ys)
    with Cons.IH Cons.prems have "split c (join [c] (y # ys)) = y # ys" by simp
    with Cons Cons.prems show ?thesis
      using split_append_sep [of c x "join [c] (y # ys)"] by simp
  qed
qed

lemma join_append_line: "ls \<noteq> [] \<Longrightarrow> join sep (ls @ [l]) = join sep ls @ sep @ l"
  by (induction sep ls rule: join.induct) auto

lemma hd_join: "ls \<noteq> [] \<Longrightarrow> hd ls \<noteq> [] \<Longrightarrow> hd (join sep ls) = hd (hd ls)"
  by (induction sep ls rule: join.induct) auto

lemma join_last_not_Nil: "ls \<noteq> [] \<Longrightarrow> last ls \<noteq> [] \<Longrightarrow> join sep ls \<noteq> []"
  by (induction sep ls rule: join.induct) auto

lemma last_join: "ls \<noteq> [] \<Longrightarrow> last ls \<noteq> [] \<Longrightarrow> last (join sep ls) = last (last ls)"
proof (induction sep ls rule: join.induct)
  case (1 sep)
  then show ?case by simp
next
  case (2 sep x)
  then show ?case by simp
next
  case (3 sep x y ys)
  then have "join sep (y # ys) \<noteq> []"
    using join_last_not_Nil [of "y # ys" sep] by simp
  with 3 show ?case by simp
qed

lemma trim_join:
  assumes "ls \<noteq> []" "hd ls \<noteq> []" "last ls \<noteq> []" "trim (hd ls) = hd ls" "trim (last ls) = last ls"
  shows "trim (join sep ls) = join sep ls"
  using assms by (simp add: trim_eq_self_iff hd_join last_join join_last_not_Nil)

section \<open>The stages of the rule engine and the fixed copy\<close>

lemma run_checks_stages:
  assumes "run_checks ev json = Inr st"
  obtains st1 st2 ls st7 where
    "json \<noteq> JNull"
    "required_elements_check json (empty_state json) = Inr st1"
    "template_checks (templates ev) json custom_template_props st1 = Inr st2"
    "address_lines_of json = Inr ls"
    "name_check (autofix ev) json ls
       (line_trim_check (autofix ev) ls (line_count_check ls
          (whitespace_check (autofix ev) json (quality_check json st2)))) = Inr st7"
    "country_check ev ls st7 = Inr st"
  using assms
  by (auto simp: run_checks_def empty_state_def Let_def split: if_splits sum.splits)

lemma run_checks_intro:
  assumes "json \<noteq> JNull"
    and "required_elements_check json (empty_state json) = Inr s1"
    and "template_checks (templates ev) json custom_template_props s1 = Inr s2"
    and "address_lines_of json = Inr ls"
    and "name_check (autofix ev) json ls
           (line_trim_check (autofix ev) ls (line_count_check ls
              (whitespace_check (autofix ev) json (quality_check json s2)))) = Inr s7"
    and "country_check ev ls s7 = Inr s8"
  shows "run_checks ev json = Inr s8"
  using assms by (simp add: run_checks_def empty_state_def Let_def)

lemma to_event_eq: "to_event t x = to_event t' y \<longleftrightarrow> t = t' \<and> x = y"
  by (cases x; cases y) (auto simp: to_event_def)

lemma is_object_js_set [simp]: "is_object (js_set v key x) = is_object v"
  by (cases v) (auto split: list.splits)

lemma js_get_js_set:
  "is_object v \<Longrightarrow> js_get (js_set v key x) k = (if k = key then Some x else js_get v k)"
  by (cases v) (auto simp: update_conv')

lemma is_object_push [simp]:
  "af_json (push_error e st) = af_json st" "af_json (push_autofix e st) = af_json st"
  by (simp_all add: push_error_def push_autofix_def)

lemma af_required_elements_check:
  "required_elements_check json st = Inr st' \<Longrightarrow> af_json st' = af_json st"
  by (auto simp: required_elements_check_def split: if_splits option.splits json.splits sum.splits)

lemma af_template_check:
  "template_check tpls json prp st = Inr st' \<Longrightarrow> af_json st' = af_json st"
  by (auto simp: template_check_def split: if_splits option.splits)

lemma af_template_checks:
  "template_checks tpls json prps st = Inr st' \<Longrightarrow> af_json st' = af_json st"
proof (induction prps arbitrary: st)
  case Nil
  then show ?case by simp
next
  case (Cons prp prps)
  then show ?case by (auto split: sum.splits dest: af_template_check)
qed

lemma af_quality_check [simp]: "af_json (quality_check json st) = af_json st"
  by (simp add: quality_check_def)

lemma af_line_count_check [simp]: "af_json (line_count_check ls st) = af_json st"
  by (simp add: line_count_check_def)

lemma af_line_trim_check:
  "af_json (line_trim_check True ls st)
   = (if list_ex (\<lambda>line. line \<noteq> trim line) ls
      then js_set (af_json st) ''address'' (JStr (join [NL] (map trim ls)))
      else af_json st)"
  by (simp add: line_trim_check_def Let_def)

lemma af_name_check:
  assumes "name_check True json (first_line # rest) st = Inr st'"
  shows "af_json st'
         = (if js_get json ''name'' = Some (JStr (trim first_line))
            then js_set (af_json st) ''address'' (JStr (join [NL] rest))
            else af_json st)"
  using assms by (auto simp: name_check_def Let_def split: if_splits)

lemma object_whitespace_step:
  "is_object (af_json (whitespace_step af json key st)) = is_object (af_json st)"
  by (simp add: whitespace_step_def Let_def split: option.splits json.splits)

lemma object_whitespace_check:
  "is_object (af_json (whitespace_check af json st)) = is_object (af_json st)"
proof -
  have "is_object (af_json (fold (whitespace_step af json) ks st)) = is_object (af_json st)" for ks
    by (induction ks arbitrary: st) (simp_all add: object_whitespace_step)
  then show ?thesis by (simp add: whitespace_check_def)
qed

lemma object_line_trim_check:
  "is_object (af_json (line_trim_check af ls st)) = is_object (af_json st)"
  by (simp add: line_trim_check_def Let_def)

lemma country_check_shape:
  assumes "country_check ev ls st = Inr st'" and "autofix ev"
    and "js_get (af_json st) ''address'' = Some (JStr cur)"
  shows "(af_json st' = af_json st
          \<and> (isLastLineCountry (countries ev) (trim (last ls)) country_name_variations
             \<or> (\<exists>city. city_exec (trim (last ls)) = Some city
                   \<and> filter (\<lambda>x. city_name x = city) (cities ev) = [])))
         \<or> (\<exists>code cn. guessed_country_name (countries ev) code = Inr cn
               \<and> af_json st' = js_set (af_json st) ''address'' (JStr (cur @ [NL] @ cn)))"
  using assms
  by (auto simp: country_check_def Let_def split: if_splits list.splits option.splits sum.splits)
    blast

section \<open>C1 and C2: exceptions in the rule engine\<close>

text \<open>
  C1: the rule engine throws where the claim says it does not. A record without
  \<open>address\<close> ends in a TypeError in both modes, and the exception ends the whole run
  although the schema finding had been recorded; so do a \<open>request-language\<close> and the
  default \<open>en\<close> without a catalogue entry, and, in auto-fix mode, a last address line
  without a space.
\<close>

theorem rule_engine_throws:
  "run_checks report_env record_no_address = Inl (TypeError ''json[address].split'')
   \<and> run_checks example_env record_no_address = Inl (TypeError ''json[address].split'')
   \<and> run_checks report_env record_unknown_language = Inl (TypeError ''templates[request-language].includes'')
   \<and> run_checks (report_env\<lparr>templates := []\<rparr>) record_custom_template = Inl (TypeError ''templates[en].includes'')
   \<and> run_checks example_env record_scenario = Inl (TypeError ''exec(last_line)[1]'')
   \<and> main report_env (platform_for (JSON_stringify4 record_no_address @ [NL]) record_no_address)
        (\<lambda>json. Some [''must have required property address'']) (\<lambda>json. None)
        [acme_path \<mapsto> JSON_stringify4 record_no_address @ [NL]]
     = ([acme_path \<mapsto> JSON_stringify4 record_no_address @ [NL]], Inl (TypeError ''json[address].split''))"
proof -
  have 1: "run_checks report_env record_no_address = Inl (TypeError ''json[address].split'')"
    by code_simp
  have 2: "run_checks example_env record_no_address = Inl (TypeError ''json[address].split'')"
    by code_simp
  have 3: "run_checks report_env record_unknown_language
           = Inl (TypeError ''templates[request-language].includes'')"
    by code_simp
  have 4: "run_checks (report_env\<lparr>templates := []\<rparr>) record_custom_template
           = Inl (TypeError ''templates[en].includes'')"
    by code_simp
  have 5: "run_checks example_env record_scenario = Inl (TypeError ''exec(last_line)[1]'')"
    by code_simp
  have a: "additional_checks report_env record_no_address f d = Inl (TypeError ''json[address].split'')"
    for f d
    by (simp add: additional_checks_def 1)
  have n: "record_no_address \<noteq> JNull"
    by (simp add: record_no_address_def)
  have 6: "main report_env (platform_for (JSON_stringify4 record_no_address @ [NL]) record_no_address)
        (\<lambda>json. Some [''must have required property address'']) (\<lambda>json. None)
        [acme_path \<mapsto> JSON_stringify4 record_no_address @ [NL]]
     = ([acme_path \<mapsto> JSON_stringify4 record_no_address @ [NL]], Inl (TypeError ''json[address].split''))"
    by (simp add: a n main_def validator_def platform_for_def process_file_def Let_def)
  from 1 2 3 4 5 6 show ?thesis by blast
qed

text \<open>
  C2: on the record of the scenario, with the gazetteer entry for Berlin and in auto-fix
  mode, the city pattern does not match the last line ``Berlin'' and line 197 throws:
  no finding is returned and the file stays as it was.
\<close>

theorem scenario_B_throws:
  "additional_checks example_env record_scenario acme_path [acme_path \<mapsto> scenario_file]
     = Inl (TypeError ''exec(last_line)[1]'')
   \<and> main example_env (platform_for scenario_file record_scenario) (\<lambda>json. None) (\<lambda>json. None)
        [acme_path \<mapsto> scenario_file]
     = ([acme_path \<mapsto> scenario_file], Inl (TypeError ''exec(last_line)[1]''))"
proof -
  have r: "run_checks example_env record_scenario = Inl (TypeError ''exec(last_line)[1]'')"
    by code_simp
  have a: "additional_checks example_env record_scenario f d = Inl (TypeError ''exec(last_line)[1]'')" for f d
    by (simp add: additional_checks_def r)
  have n: "record_scenario \<noteq> JNull"
    by (simp add: record_scenario_def)
  show ?thesis
    by (simp add: a n main_def validator_def platform_for_def process_file_def Let_def)
qed

section \<open>C3: the write on line 209\<close>

text \<open>An auto-fix evaluation of an object that returns has written the file.\<close>

lemma autofix_always_writes:
  assumes "autofix ev" and "is_object json" and "additional_checks ev json f d = Inr (evs, d')"
  shows "\<exists>st. run_checks ev json = Inr st \<and> d' = d(f \<mapsto> JSON_stringify4 (af_json st) @ [NL])"
  using assms by (cases json) (auto simp: additional_checks_def split: sum.splits)

text \<open>
  C3: for a record on which no rule reports or changes anything, the fixed copy equals
  the record, and yet the auto-fix run writes the file; a file stored on one line has
  different content afterwards.
\<close>

theorem autofix_rewrites_unchanged_record:
  "run_checks example_env record_clean = Inr (empty_state record_clean)
   \<and> fst (main example_env (platform_for clean_file record_clean) (\<lambda>json. None) (\<lambda>json. None)
            [acme_path \<mapsto> clean_file]) acme_path
     = Some (JSON_stringify4 record_clean @ [NL])
   \<and> JSON_stringify4 record_clean @ [NL] \<noteq> clean_file"
proof -
  have r: "run_checks example_env record_clean = Inr (empty_state record_clean)"
    by code_simp
  have a: "additional_checks example_env record_clean f d
           = Inr ([], d(f \<mapsto> JSON_stringify4 record_clean @ [NL]))" for f d
    unfolding additional_checks_def r
    by (simp add: empty_state_def returnevents_def example_env_def record_clean_def)
  have n: "record_clean \<noteq> JNull"
    by (simp add: record_clean_def)
  have s: "js_str (js_get record_clean ''slug'') @ ''.json'' = basename acme_path"
    by code_simp
  have e: "endsWith clean_file (''}'' @ [NL])"
    by code_simp
  have m: "fst (main example_env (platform_for clean_file record_clean) (\<lambda>json. None) (\<lambda>json. None)
            [acme_path \<mapsto> clean_file]) acme_path
     = Some (JSON_stringify4 record_clean @ [NL])"
    by (simp add: a n s e main_def validator_def platform_for_def process_file_def Let_def)
  have c: "JSON_stringify4 record_clean @ [NL] \<noteq> clean_file"
    by code_simp
  from r m c show ?thesis by simp
qed

section \<open>C4: a second auto-fix pass\<close>

lemma trimmed_upto_step:
  assumes "trimmed_upto json S st"
  shows "trimmed_upto json (insert key S) (whitespace_step True json key st)"
proof (cases "\<exists>s. js_get json key = Some (JStr s) \<and> s \<noteq> trim s")
  case True
  then obtain s where s: "js_get json key = Some (JStr s)" "s \<noteq> trim s" by blast
  then have "whitespace_step True json key st
             = push_autofix \<lparr>msg = ''trimmed '' @ key, ref = None\<rparr>
                 ((push_error (whitespace_finding key) st)
                    \<lparr>af_json := js_set (af_json st) key (JStr (trim s))\<rparr>)"
    by (simp add: whitespace_step_def Let_def)
  with assms s show ?thesis
    by (auto simp: trimmed_upto_def js_get_js_set)
next
  case False
  then have same: "whitespace_step True json key st = st"
    by (auto simp: whitespace_step_def split: option.splits json.splits)
  have "map_option trim_value (js_get json key) = js_get json key"
  proof (cases "js_get json key")
    case None
    then show ?thesis by simp
  next
    case (Some a)
    with False show ?thesis by (cases a) auto
  qed
  with assms show ?thesis
    unfolding same trimmed_upto_def by auto
qed

lemma trimmed_upto_fold:
  "trimmed_upto json S st \<Longrightarrow> trimmed_upto json (S \<union> set ks) (fold (whitespace_step True json) ks st)"
proof (induction ks arbitrary: S st)
  case Nil
  then show ?case by simp
next
  case (Cons key ks)
  from Cons.IH [OF trimmed_upto_step [OF Cons.prems, of key]]
  show ?case by simp
qed

lemma whitespace_check_trims:
  assumes "af_json st = JObj kvs"
  shows "is_object (af_json (whitespace_check True (JObj kvs) st))
         \<and> (\<forall>k. js_get (af_json (whitespace_check True (JObj kvs) st)) k
                  = map_option trim_value (map_of kvs k))"
proof -
  have "trimmed_upto (JObj kvs) {} st"
    using assms by (simp add: trimmed_upto_def)
  from trimmed_upto_fold [OF this, of "map fst kvs"]
  have t: "trimmed_upto (JObj kvs) (fst ` set kvs) (whitespace_check True (JObj kvs) st)"
    by (simp add: whitespace_check_def)
  have "map_of kvs k = None" if "k \<notin> fst ` set kvs" for k
    using that by (simp add: map_of_eq_None_iff)
  with t show ?thesis
    by (auto simp: trimmed_upto_def)
qed

lemma first_pass_shape:
  assumes af: "autofix ev"
    and run: "run_checks ev (JObj kvs) = Inr st1"
    and L: "fixed_lines (JObj kvs) = L"
    and L_ne: "L \<noteq> []"
    and L_trim: "\<forall>l \<in> set L. trim l = l"
    and L_hd: "hd L \<noteq> []"
    and L_last: "last L \<noteq> []"
  shows "\<exists>ls. address_lines_of (JObj kvs) = Inr ls \<and> ls \<noteq> []
           \<and> last L = trim (last ls)
           \<and> (\<forall>l \<in> set L. NL \<notin> set l)
           \<and> is_object (af_json st1)
           \<and> (\<forall>k. k \<noteq> ''address'' \<longrightarrow> js_get (af_json st1) k = map_option trim_value (map_of kvs k))
           \<and> ((js_get (af_json st1) ''address'' = Some (JStr (join [NL] L))
                 \<and> (isLastLineCountry (countries ev) (trim (last ls)) country_name_variations
                    \<or> (\<exists>city. city_exec (trim (last ls)) = Some city
                          \<and> filter (\<lambda>x. city_name x = city) (cities ev) = [])))
               \<or> (\<exists>code cn. guessed_country_name (countries ev) code = Inr cn
                     \<and> js_get (af_json st1) ''address'' = Some (JStr (join [NL] L @ [NL] @ cn))))"
proof -
  from run obtain s1 s2 ls s7 where
    1: "required_elements_check (JObj kvs) (empty_state (JObj kvs)) = Inr s1"
    and 2: "template_checks (templates ev) (JObj kvs) custom_template_props s1 = Inr s2"
    and l: "address_lines_of (JObj kvs) = Inr ls"
    and 7: "name_check (autofix ev) (JObj kvs) ls
              (line_trim_check (autofix ev) ls (line_count_check ls
                 (whitespace_check (autofix ev) (JObj kvs) (quality_check (JObj kvs) s2)))) = Inr s7"
    and 8: "country_check ev ls s7 = Inr st1"
    by (rule run_checks_stages)
  from l obtain a where a: "map_of kvs ''address'' = Some (JStr a)" and ls: "ls = split NL a"
    by (auto simp: address_lines_of_def split: option.splits json.splits)
  obtain first_line rest where fr: "ls = first_line # rest"
    by (metis ls split_not_Nil list.exhaust)
  define s4 where "s4 = whitespace_check True (JObj kvs) (quality_check (JObj kvs) s2)"
  define s6 where "s6 = line_trim_check True ls (line_count_check ls s4)"
  have "af_json (quality_check (JObj kvs) s2) = JObj kvs"
    using af_required_elements_check [OF 1] af_template_checks [OF 2] by (simp add: empty_state_def)
  from whitespace_check_trims [OF this]
  have o4: "is_object (af_json s4)"
    and g4: "\<And>k. js_get (af_json s4) k = map_option trim_value (map_of kvs k)"
    by (simp_all add: s4_def)
  have o6: "is_object (af_json s6)"
    using o4 by (simp add: s6_def af_line_trim_check)
  have g6: "js_get (af_json s6) k = map_option trim_value (map_of kvs k)" if "k \<noteq> ''address''" for k
    using that o4 g4 by (simp add: s6_def af_line_trim_check js_get_js_set)
  have a6: "js_get (af_json s6) ''address''
            = (if list_ex (\<lambda>line. line \<noteq> trim line) ls then Some (JStr (join [NL] (map trim ls)))
               else Some (JStr (trim a)))"
    using o4 g4 a by (simp add: s6_def af_line_trim_check js_get_js_set)
  from 7 af have n7: "name_check True (JObj kvs) (first_line # rest) s6 = Inr s7"
    by (simp add: s6_def s4_def fr)
  note af7 = af_name_check [OF n7]
  have o7: "is_object (af_json s7)"
    using o6 by (simp add: af7)
  have g7: "js_get (af_json s7) k = map_option trim_value (map_of kvs k)" if "k \<noteq> ''address''" for k
    using that o6 g6 by (simp add: af7 js_get_js_set)
  have Ldef: "L = (if map_of kvs ''name'' = Some (JStr (trim first_line)) then rest
                   else map trim (first_line # rest))"
    using L l fr by (simp add: fixed_lines_def)
  have a7: "js_get (af_json s7) ''address'' = Some (JStr (join [NL] L))"
  proof (cases "map_of kvs ''name'' = Some (JStr (trim first_line))")
    case True
    with o6 show ?thesis by (simp add: af7 js_get_js_set Ldef)
  next
    case False
    show ?thesis
    proof (cases "list_ex (\<lambda>line. line \<noteq> trim line) ls")
      case True
      with False a6 show ?thesis by (simp add: af7 Ldef fr)
    next
      case untr: False
      then have "map trim ls = ls"
        by (simp add: list_ex_iff map_idI)
      with False Ldef fr have "L = ls" by simp
      then have "trim a = join [NL] L"
        using trim_join [OF L_ne L_hd L_last, of "[NL]"] L_trim L_ne join_split [of NL a] ls
        by simp
      with False untr a6 show ?thesis by (simp add: af7)
    qed
  qed
  have lastL: "last L = trim (last ls)"
  proof (cases "map_of kvs ''name'' = Some (JStr (trim first_line))")
    case True
    with Ldef have "L = rest" by simp
    with L_ne fr have "last L = last ls" by simp
    with L_trim L_ne show ?thesis by (metis last_in_set)
  next
    case False
    with Ldef fr show ?thesis by (simp add: last_map)
  qed
  have nl: "\<forall>l \<in> set L. NL \<notin> set l"
  proof
    fix l
    assume "l \<in> set L"
    then have "l \<in> set ls \<or> (\<exists>l0 \<in> set ls. l = trim l0)"
      using Ldef fr by (auto split: if_splits)
    then obtain l0 where "l0 \<in> set ls" and "set l \<subseteq> set l0"
      using set_trim by blast
    then show "NL \<notin> set l"
      using split_no_sep [of l0 NL a] ls by auto
  qed
  from country_check_shape [OF 8 af a7] o7 g7 a7
  have "(js_get (af_json st1) ''address'' = Some (JStr (join [NL] L))
                 \<and> (isLastLineCountry (countries ev) (trim (last ls)) country_name_variations
                    \<or> (\<exists>city. city_exec (trim (last ls)) = Some city
                          \<and> filter (\<lambda>x. city_name x = city) (cities ev) = [])))
               \<or> (\<exists>code cn. guessed_country_name (countries ev) code = Inr cn
                     \<and> js_get (af_json st1) ''address'' = Some (JStr (join [NL] L @ [NL] @ cn)))"
    and "is_object (af_json st1)"
    and "\<forall>k. k \<noteq> ''address'' \<longrightarrow> js_get (af_json st1) k = map_option trim_value (map_of kvs k)"
    by (auto simp: js_get_js_set)
  with l lastL nl fr show ?thesis by auto
qed

lemma trim_value_required:
  assumes "required_elements_check json st = Inr st'"
  shows "map_option trim_value (js_get json ''required-elements'') = js_get json ''required-elements''"
proof (cases "js_get json ''required-elements''")
  case None
  then show ?thesis by simp
next
  case (Some v)
  with assms show ?thesis
    by (cases v) (auto simp: required_elements_check_def split: if_splits)
qed

lemma required_elements_check_again:
  assumes "required_elements_check j1 s1 = Inr s1'"
    and "js_get j2 ''required-elements'' = js_get j1 ''required-elements''"
  shows "\<exists>s2'. required_elements_check j2 s2 = Inr s2' \<and> af_json s2' = af_json s2"
  using assms
  by (auto simp: required_elements_check_def split: if_splits option.splits json.splits sum.splits)

lemma truthy_trim_value: "truthy (map_option trim_value x) \<Longrightarrow> truthy x"
proof (cases x)
  case None
  then show "truthy (map_option trim_value x) \<Longrightarrow> truthy x" by simp
next
  case (Some v)
  then show "truthy (map_option trim_value x) \<Longrightarrow> truthy x"
    by (cases v) (auto simp: trim_def)
qed

lemma template_check_again:
  assumes "template_check tpls j1 prp s1 = Inr s1'"
    and "js_get j2 prp = map_option trim_value (js_get j1 prp)"
    and "js_get j2 ''request-language'' = js_get j1 ''request-language''"
  shows "\<exists>s2'. template_check tpls j2 prp s2 = Inr s2' \<and> af_json s2' = af_json s2"
proof (cases "truthy (js_get j2 prp)")
  case False
  then show ?thesis by (simp add: template_check_def)
next
  case True
  with assms(2) have "truthy (js_get j1 prp)"
    using truthy_trim_value by simp
  with assms(1,3) True show ?thesis
    by (auto simp: template_check_def split: if_splits option.splits)
qed

lemma template_checks_again:
  assumes "template_checks tpls j1 prps s1 = Inr s1'"
    and "\<forall>prp \<in> set prps. js_get j2 prp = map_option trim_value (js_get j1 prp)"
    and "js_get j2 ''request-language'' = js_get j1 ''request-language''"
  shows "\<exists>s2'. template_checks tpls j2 prps s2 = Inr s2' \<and> af_json s2' = af_json s2"
  using assms(1,2)
proof (induction prps arbitrary: s1 s2)
  case Nil
  then show ?case by simp
next
  case (Cons prp prps)
  from Cons.prems(1) obtain t1 where t1: "template_check tpls j1 prp s1 = Inr t1"
    and rest: "template_checks tpls j1 prps t1 = Inr s1'"
    by (auto split: sum.splits)
  from template_check_again [OF t1 _ assms(3), of s2] Cons.prems(2)
  obtain t2 where t2: "template_check tpls j2 prp s2 = Inr t2" and a2: "af_json t2 = af_json s2"
    by auto
  from Cons.IH [OF rest, of t2] Cons.prems(2)
  obtain s2' where "template_checks tpls j2 prps t2 = Inr s2'" and "af_json s2' = af_json t2"
    by auto
  with t2 a2 show ?case by simp
qed

lemma whitespace_check_id:
  assumes "\<forall>k s. js_get j k = Some (JStr s) \<longrightarrow> trim s = s"
  shows "whitespace_check af j st = st"
proof -
  have step: "whitespace_step af j key st = st" for key st
    using assms by (auto simp: whitespace_step_def split: option.splits json.splits)
  have "fold (whitespace_step af j) ks st = st" for ks
    by (induction ks) (simp_all add: step)
  then show ?thesis by (simp add: whitespace_check_def)
qed

lemma line_trim_check_id: "\<forall>l \<in> set ls. trim l = l \<Longrightarrow> line_trim_check af ls st = st"
  by (auto simp: line_trim_check_def list_ex_iff)

lemma name_check_no_fix:
  assumes "js_get j ''name'' \<noteq> Some (JStr (trim first_line))"
  shows "\<exists>st'. name_check af j (first_line # rest) st = Inr st' \<and> af_json st' = af_json st"
  using assms by (simp add: name_check_def Let_def)

lemma country_check_no_fix:
  assumes "ls \<noteq> []"
    and "isLastLineCountry (countries ev) (trim (last ls)) country_name_variations
         \<or> (\<exists>city. city_exec (trim (last ls)) = Some city
               \<and> filter (\<lambda>x. city_name x = city) (cities ev) = [])"
  shows "\<exists>st'. country_check ev ls st = Inr st' \<and> af_json st' = af_json st"
  using assms by (auto simp: country_check_def Let_def)

lemma variation_names_plain:
  assumes "code \<in> set variation_countrycodes"
    and "cn = country_name_variations ! indexOf variation_countrycodes code"
  shows "cn \<in> set country_name_variations \<and> trim cn = cn \<and> cn \<noteq> [] \<and> NL \<notin> set cn"
  using assms
  by (auto simp: variation_countrycodes_def country_name_variations_def trim_eq_self_iff is_ws_def)

lemma guessed_country_name_plain:
  assumes "guessed_country_name cs code = Inr cn" and "plain_country_names cs"
  shows "isLastLineCountry cs cn country_name_variations \<and> trim cn = cn \<and> cn \<noteq> [] \<and> NL \<notin> set cn"
proof (cases "code \<in> set variation_countrycodes")
  case True
  with assms(1) have "cn = country_name_variations ! indexOf variation_countrycodes code"
    by (simp add: guessed_country_name_def)
  from variation_names_plain [OF True this] show ?thesis
    by (simp add: isLastLineCountry_def)
next
  case False
  with assms(1) obtain c where c: "map_of cs code = Some c" and cn: "cn = name c"
    by (auto simp: guessed_country_name_def split: option.splits)
  from c have m: "(code, c) \<in> set cs" by (rule map_of_SomeD)
  with assms(2) have "trim (name c) = name c \<and> name c \<noteq> [] \<and> NL \<notin> set (name c)"
    by (auto simp: plain_country_names_def list_all_iff)
  moreover from m False cn have "isLastLineCountry cs cn country_name_variations"
    by (auto simp: isLastLineCountry_def list_ex_iff)
  ultimately show ?thesis by (simp add: cn)
qed

lemma trim_value_JStr: "trim_value v = JStr t \<Longrightarrow> \<exists>s. v = JStr s \<and> t = trim s"
  by (cases v) auto

text \<open>
  C4, as the specification states it, fails by value too: when the first two address
  lines equal \<open>name\<close>, the first pass drops one of them and the second pass drops
  the other, so the second fixed copy differs from the first and is written out as
  different text.
\<close>

theorem second_pass_drops_another_line:
  "run_checks example_env record_repeated_name
     = Inr \<lparr>af_json = record_repeated_once, errors = [name_finding], autofixes = [name_autofix]\<rparr>
   \<and> run_checks example_env record_repeated_once
     = Inr \<lparr>af_json = record_repeated_twice, errors = [name_finding], autofixes = [name_autofix]\<rparr>
   \<and> record_repeated_twice \<noteq> record_repeated_once
   \<and> JSON_stringify4 record_repeated_twice \<noteq> JSON_stringify4 record_repeated_once"
  by code_simp

text \<open>
  C4 (amended): by value, one auto-fix pass is enough for a record that settles. For a
  record (a JSON object) that settles and on which an auto-fix pass returns, with
  country names that are plain, a second pass over the fixed copy returns as well and
  its fixed copy equals the one it started from. Whether that pass writes the file is
  left to C3.
\<close>

theorem second_pass_keeps_fixed_copy:
  assumes af: "autofix ev"
    and obj: "json = JObj kvs"
    and plain: "plain_country_names (countries ev)"
    and settles: "settles json"
    and run: "run_checks ev json = Inr st1"
  shows "\<exists>st2. run_checks ev (af_json st1) = Inr st2 \<and> af_json st2 = af_json st1"
proof -
  define L where "L = fixed_lines json"
  define af1 where "af1 = af_json st1"
  from settles have L_ne: "L \<noteq> []" and L_trim: "\<forall>l \<in> set L. trim l = l"
    and L_hd: "hd L \<noteq> []" and L_last: "last L \<noteq> []"
    and L_name: "\<And>n. js_get json ''name'' = Some (JStr n) \<Longrightarrow> hd L \<noteq> trim n"
    and lang: "\<And>s. js_get json ''request-language'' = Some (JStr s) \<Longrightarrow> trim s = s"
    by (auto simp: settles_def L_def Let_def list_all_iff)
  from first_pass_shape [OF af run [unfolded obj] L_def [unfolded obj, symmetric] L_ne L_trim L_hd L_last]
  obtain ls where ls: "ls \<noteq> []"
    and lastL: "last L = trim (last ls)"
    and L_nl: "\<forall>l \<in> set L. NL \<notin> set l"
    and o1: "is_object af1"
    and g1: "\<And>k. k \<noteq> ''address'' \<Longrightarrow> js_get af1 k = map_option trim_value (js_get json k)"
    and a1: "(js_get af1 ''address'' = Some (JStr (join [NL] L))
                 \<and> (isLastLineCountry (countries ev) (trim (last ls)) country_name_variations
                    \<or> (\<exists>city. city_exec (trim (last ls)) = Some city
                          \<and> filter (\<lambda>x. city_name x = city) (cities ev) = [])))
               \<or> (\<exists>code cn. guessed_country_name (countries ev) code = Inr cn
                     \<and> js_get af1 ''address'' = Some (JStr (join [NL] L @ [NL] @ cn)))"
    unfolding af1_def obj by auto
  have "\<exists>L'. js_get af1 ''address'' = Some (JStr (join [NL] L'))
          \<and> L' \<noteq> [] \<and> (\<forall>l \<in> set L'. trim l = l \<and> NL \<notin> set l) \<and> hd L' = hd L \<and> last L' \<noteq> []
          \<and> (isLastLineCountry (countries ev) (trim (last L')) country_name_variations
              \<or> (\<exists>city. city_exec (trim (last L')) = Some city
                    \<and> filter (\<lambda>x. city_name x = city) (cities ev) = []))"
    using a1
  proof
    assume c: "js_get af1 ''address'' = Some (JStr (join [NL] L))
                 \<and> (isLastLineCountry (countries ev) (trim (last ls)) country_name_variations
                    \<or> (\<exists>city. city_exec (trim (last ls)) = Some city
                          \<and> filter (\<lambda>x. city_name x = city) (cities ev) = []))"
    have "trim (last L) = trim (last ls)"
      using L_trim L_ne lastL by (metis last_in_set)
    with c L_ne L_trim L_nl L_last show ?thesis
      by (intro exI [of _ L]) auto
  next
    assume "\<exists>code cn. guessed_country_name (countries ev) code = Inr cn
              \<and> js_get af1 ''address'' = Some (JStr (join [NL] L @ [NL] @ cn))"
    then obtain code cn where g: "guessed_country_name (countries ev) code = Inr cn"
      and a: "js_get af1 ''address'' = Some (JStr (join [NL] L @ [NL] @ cn))"
      by blast
    from guessed_country_name_plain [OF g plain]
    have cn: "isLastLineCountry (countries ev) cn country_name_variations" "trim cn = cn"
      "cn \<noteq> []" "NL \<notin> set cn"
      by simp_all
    from a L_ne have "js_get af1 ''address'' = Some (JStr (join [NL] (L @ [cn])))"
      by (simp add: join_append_line)
    with cn L_ne L_trim L_nl show ?thesis
      by (intro exI [of _ "L @ [cn]"]) auto
  qed
  then obtain L' where a1': "js_get af1 ''address'' = Some (JStr (join [NL] L'))"
    and L'_ne: "L' \<noteq> []" and L'_lines: "\<forall>l \<in> set L'. trim l = l \<and> NL \<notin> set l"
    and L'_hd: "hd L' = hd L" and L'_last: "last L' \<noteq> []"
    and L'_country: "isLastLineCountry (countries ev) (trim (last L')) country_name_variations
              \<or> (\<exists>city. city_exec (trim (last L')) = Some city
                    \<and> filter (\<lambda>x. city_name x = city) (cities ev) = [])"
    by blast
  have lines1: "address_lines_of af1 = Inr L'"
    using a1' L'_ne L'_lines by (simp add: address_lines_of_def split_join)
  have "trim (hd L') = hd L'" "trim (last L') = last L'"
    using L'_ne L'_lines by simp_all
  then have whole: "trim (join [NL] L') = join [NL] L'"
    using trim_join [OF L'_ne _ L'_last, of "[NL]"] L'_hd L_hd by simp
  have trimmed1: "\<forall>k s. js_get af1 k = Some (JStr s) \<longrightarrow> trim s = s"
  proof (intro allI impI)
    fix k s
    assume ks: "js_get af1 k = Some (JStr s)"
    show "trim s = s"
    proof (cases "k = ''address''")
      case True
      with ks a1' whole show ?thesis by simp
    next
      case False
      from g1 [OF False] ks have "map_option trim_value (js_get json k) = Some (JStr s)" by simp
      then obtain v where "trim_value v = JStr s" by (cases "js_get json k") auto
      then show ?thesis by (auto dest: trim_value_JStr)
    qed
  qed
  from run obtain s1 s2 where
    p1: "required_elements_check json (empty_state json) = Inr s1"
    and p2: "template_checks (templates ev) json custom_template_props s1 = Inr s2"
    by (rule run_checks_stages)
  have "js_get af1 ''required-elements'' = js_get json ''required-elements''"
    using g1 [of "''required-elements''"] trim_value_required [OF p1] by simp
  from required_elements_check_again [OF p1 this, of "empty_state af1"]
  obtain t1 where q1: "required_elements_check af1 (empty_state af1) = Inr t1"
    and t1: "af_json t1 = af1"
    by (auto simp: empty_state_def)
  have "map_option trim_value (js_get json ''request-language'') = js_get json ''request-language''"
  proof (cases "js_get json ''request-language''")
    case None
    then show ?thesis by simp
  next
    case (Some v)
    with lang show ?thesis by (cases v) auto
  qed
  then have l1: "js_get af1 ''request-language'' = js_get json ''request-language''"
    using g1 [of "''request-language''"] by simp
  have "\<forall>prp \<in> set custom_template_props. js_get af1 prp = map_option trim_value (js_get json prp)"
    using g1 by (auto simp: custom_template_props_def)
  from template_checks_again [OF p2 this l1, of t1]
  obtain t2 where q2: "template_checks (templates ev) af1 custom_template_props t1 = Inr t2"
    and t2: "af_json t2 = af1"
    using t1 by auto
  define t6 where "t6 = line_trim_check (autofix ev) L' (line_count_check L'
              (whitespace_check (autofix ev) af1 (quality_check af1 t2)))"
  have t6: "af_json t6 = af1"
    using L'_lines t2 by (simp add: t6_def whitespace_check_id [OF trimmed1] line_trim_check_id)
  obtain first_line rest where fr: "L' = first_line # rest"
    using L'_ne by (cases L') auto
  have "js_get af1 ''name'' \<noteq> Some (JStr (trim first_line))"
  proof
    assume n: "js_get af1 ''name'' = Some (JStr (trim first_line))"
    with g1 [of "''name''"]
    have "map_option trim_value (js_get json ''name'') = Some (JStr (trim first_line))" by simp
    then obtain v where v: "js_get json ''name'' = Some v"
      and "trim_value v = JStr (trim first_line)"
      by (cases "js_get json ''name''") auto
    then obtain s where "v = JStr s" and "trim first_line = trim s"
      by (auto dest: trim_value_JStr)
    with v L_name [of s] L'_hd fr L'_lines show False by auto
  qed
  from name_check_no_fix [OF this, of "autofix ev" rest t6]
  obtain t7 where q7: "name_check (autofix ev) af1 L' t6 = Inr t7" and t7: "af_json t7 = af1"
    using t6 fr by auto
  from country_check_no_fix [OF L'_ne L'_country, of t7]
  obtain st2 where q8: "country_check ev L' t7 = Inr st2" and st2: "af_json st2 = af1"
    using t7 by auto
  have "af1 \<noteq> JNull"
    using o1 by auto
  from run_checks_intro [OF this q1 q2 lines1 q7 [unfolded t6_def] q8] st2
  show ?thesis
    by (auto simp: af1_def)
qed

lemma run_checks_postcode:
  "case run_checks example_env record_postcode of
     Inl e \<Rightarrow> False
   | Inr st \<Rightarrow> af_json st = record_postcode_fixed"
  by code_simp

lemma settles_postcode: "settles record_postcode \<and> plain_country_names (countries example_env)"
  by code_simp

theorem second_pass_keeps_fixed_copy_witness:
  "(case run_checks example_env record_postcode of
      Inl e \<Rightarrow> False
    | Inr st \<Rightarrow> af_json st = record_postcode_fixed)
   \<and> (\<exists>st2. run_checks example_env record_postcode_fixed = Inr st2
          \<and> af_json st2 = record_postcode_fixed)"
proof -
  obtain st1 where st1: "run_checks example_env record_postcode = Inr st1"
    and a: "af_json st1 = record_postcode_fixed"
    using run_checks_postcode by (auto split: sum.splits)
  have h1: "autofix example_env"
    by (simp add: example_env_def)
  have h2: "record_postcode = JObj
     [(''slug'', JStr ''acme''), (''name'', JStr ''Acme''),
      (''address'', JStr (''Acme'' @ [NL] @ ''Musterstr. 1'' @ [NL] @ ''10115 Berlin'')),
      (''required-elements'', JArr [JObj [(''type'', JStr ''email'')]]),
      (''quality'', JStr ''tested'')]"
    by (simp add: record_postcode_def)
  have h3: "plain_country_names (countries example_env)" and h4: "settles record_postcode"
    using settles_postcode by simp_all
  from second_pass_keeps_fixed_copy [OF h1 h2 h3 h4 st1] a run_checks_postcode
  show ?thesis by simp
qed

section \<open>C5: the required-elements rule\<close>

lemma ref_errors_push_error:
  "ref_errors (push_error e st) = ref_errors st @ (if ref e = required_elements_ref then [e] else [])"
  by (simp add: ref_errors_def push_error_def)

lemma ref_errors_push_autofix [simp]: "ref_errors (push_autofix e st) = ref_errors st"
  by (simp add: ref_errors_def push_autofix_def)

lemma ref_errors_af_json [simp]: "ref_errors (st\<lparr>af_json := v\<rparr>) = ref_errors st"
  by (simp add: ref_errors_def)

lemma ref_autofixes_push_autofix:
  "ref_autofixes (push_autofix e st)
   = ref_autofixes st @ (if ref e = required_elements_ref then [e] else [])"
  by (simp add: ref_autofixes_def push_autofix_def)

lemma ref_autofixes_push_error [simp]: "ref_autofixes (push_error e st) = ref_autofixes st"
  by (simp add: ref_autofixes_def push_error_def)

lemma ref_autofixes_af_json [simp]: "ref_autofixes (st\<lparr>af_json := v\<rparr>) = ref_autofixes st"
  by (simp add: ref_autofixes_def)

lemmas ref_push = ref_errors_push_error ref_autofixes_push_autofix required_elements_ref_def

lemma some_type_name_Inr:
  "some_type_name els = Inr b \<Longrightarrow> b = list_ex (\<lambda>el. js_get el ''type'' = Some (JStr ''name'')) els"
  by (induction els) (auto split: if_splits)

lemma ref_required_elements_check:
  assumes "required_elements_check json st = Inr st'"
  shows "ref_errors st' = ref_errors st @ (if lacks_name_element json then [required_elements_finding] else [])
         \<and> ref_autofixes st' = ref_autofixes st"
proof (cases "truthy (js_get json ''required-elements'')")
  case False
  then have "\<not> lacks_name_element json"
    by (auto simp: lacks_name_element_def split: option.splits json.splits)
  with False assms show ?thesis by (simp add: required_elements_check_def)
next
  case True
  with assms obtain els b where els: "js_get json ''required-elements'' = Some (JArr els)"
    and b: "some_type_name els = Inr b"
    and st': "st' = (if \<not> b then push_error required_elements_finding st else st)"
    by (auto simp: required_elements_check_def split: option.splits json.splits sum.splits)
  from some_type_name_Inr [OF b] els have "lacks_name_element json = (\<not> b)"
    by (simp add: lacks_name_element_def)
  with st' show ?thesis
    by (simp add: ref_push required_elements_finding_def)
qed

lemma ref_template_check:
  "template_check tpls json prp st = Inr st' \<Longrightarrow>
   ref_errors st' = ref_errors st \<and> ref_autofixes st' = ref_autofixes st"
  by (auto simp: template_check_def ref_push template_language_finding_def
      template_english_finding_def split: if_splits option.splits)

lemma ref_template_checks:
  "template_checks tpls json prps st = Inr st' \<Longrightarrow>
   ref_errors st' = ref_errors st \<and> ref_autofixes st' = ref_autofixes st"
proof (induction prps arbitrary: st)
  case Nil
  then show ?case by simp
next
  case (Cons prp prps)
  then show ?case
    by (auto split: sum.splits dest: ref_template_check)
qed

lemma ref_quality_check:
  "ref_errors (quality_check json st) = ref_errors st
   \<and> ref_autofixes (quality_check json st) = ref_autofixes st"
  by (simp add: quality_check_def ref_push quality_finding_def)

lemma ref_whitespace_step:
  "ref_errors (whitespace_step af json key st) = ref_errors st
   \<and> ref_autofixes (whitespace_step af json key st) = ref_autofixes st"
  by (simp add: whitespace_step_def ref_push whitespace_finding_def Let_def
      split: option.splits json.splits)

lemma ref_whitespace_check:
  "ref_errors (whitespace_check af json st) = ref_errors st
   \<and> ref_autofixes (whitespace_check af json st) = ref_autofixes st"
proof -
  have "ref_errors (fold (whitespace_step af json) ks st) = ref_errors st
        \<and> ref_autofixes (fold (whitespace_step af json) ks st) = ref_autofixes st" for ks
    by (induction ks arbitrary: st) (simp_all add: ref_whitespace_step)
  then show ?thesis by (simp add: whitespace_check_def)
qed

lemma ref_line_count_check:
  "ref_errors (line_count_check ls st) = ref_errors st
   \<and> ref_autofixes (line_count_check ls st) = ref_autofixes st"
  by (simp add: line_count_check_def ref_push line_count_finding_def)

lemma ref_line_trim_check:
  "ref_errors (line_trim_check af ls st) = ref_errors st
   \<and> ref_autofixes (line_trim_check af ls st) = ref_autofixes st"
  by (simp add: line_trim_check_def ref_push line_trim_finding_def Let_def)

lemma ref_name_check:
  "name_check af json ls st = Inr st' \<Longrightarrow>
   ref_errors st' = ref_errors st \<and> ref_autofixes st' = ref_autofixes st"
  by (auto simp: name_check_def ref_push name_finding_def name_autofix_def Let_def
      split: if_splits list.splits)

lemma ref_country_check:
  "country_check ev ls st = Inr st' \<Longrightarrow>
   ref_errors st' = ref_errors st \<and> ref_autofixes st' = ref_autofixes st"
  by (auto simp: country_check_def ref_push country_finding_def Let_def
      split: if_splits list.splits option.splits sum.splits)

lemma ref_run_checks:
  assumes "run_checks ev json = Inr st"
  shows "ref_errors st = (if lacks_name_element json then [required_elements_finding] else [])
         \<and> ref_autofixes st = []"
proof -
  from assms obtain st1 st2 ls st7 where
    1: "required_elements_check json (empty_state json) = Inr st1"
    and 2: "template_checks (templates ev) json custom_template_props st1 = Inr st2"
    and 7: "name_check (autofix ev) json ls
              (line_trim_check (autofix ev) ls (line_count_check ls
                 (whitespace_check (autofix ev) json (quality_check json st2)))) = Inr st7"
    and 8: "country_check ev ls st7 = Inr st"
    by (rule run_checks_stages)
  have "ref_errors (empty_state json) = [] \<and> ref_autofixes (empty_state json) = []"
    by (simp add: ref_errors_def ref_autofixes_def empty_state_def)
  with ref_required_elements_check [OF 1] ref_template_checks [OF 2] ref_name_check [OF 7]
    ref_country_check [OF 8]
  show ?thesis
    by (simp add: ref_quality_check ref_whitespace_check ref_line_count_check ref_line_trim_check)
qed

text \<open>
  C5, as the specification states it, fails: an empty \<open>required-elements\<close> list is
  truthy, \<open>some\<close> finds nothing in it, and the record gets the finding.
\<close>

theorem required_elements_empty_list_reported:
  "run_checks report_env record_empty_elements
   = Inr \<lparr>af_json = record_empty_elements, errors = [required_elements_finding], autofixes = []\<rparr>"
  by code_simp

text \<open>
  C5 (amended): whenever the rule engine returns, its findings hold exactly one that
  carries the required-elements link if \<open>required-elements\<close> is a list, empty or not,
  without an element whose \<open>type\<close> is \<open>name\<close>, and none otherwise (the field is
  absent, or the list has such an element). That finding is an error with the rule's
  message.
\<close>

theorem required_elements_rule:
  assumes "additional_checks ev json f d = Inr (evs, d')"
  shows "filter (\<lambda>e. ref e = required_elements_ref) evs
         = (if lacks_name_element json then [to_event Error required_elements_finding] else [])"
proof -
  from assms obtain st where st: "run_checks ev json = Inr st" and evs: "evs = returnevents st"
    by (auto simp: additional_checks_def split: sum.splits)
  have "filter (\<lambda>e. ref e = required_elements_ref) (returnevents st)
        = map (to_event Autofix) (ref_autofixes st) @ map (to_event Error) (ref_errors st)"
    by (simp add: returnevents_def ref_errors_def ref_autofixes_def to_event_def filter_map comp_def)
  with ref_run_checks [OF st] evs show ?thesis by simp
qed

lemma run_checks_email_element:
  "run_checks report_env record_email_element
   = Inr \<lparr>af_json = record_email_element, errors = [required_elements_finding], autofixes = []\<rparr>"
  by code_simp

theorem required_elements_rule_witness:
  "additional_checks report_env record_email_element acme_path Map.empty
     = Inr ([to_event Error required_elements_finding], Map.empty)
   \<and> filter (\<lambda>e. ref e = required_elements_ref) [to_event Error required_elements_finding]
     = [to_event Error required_elements_finding]"
proof -
  have a: "additional_checks report_env record_email_element acme_path Map.empty
           = Inr ([to_event Error required_elements_finding], Map.empty)"
    unfolding additional_checks_def run_checks_email_element
    by (simp add: returnevents_def report_env_def)
  have "lacks_name_element record_email_element"
    by (simp add: lacks_name_element_def record_email_element_def)
  with required_elements_rule [OF a] a show ?thesis by simp
qed

section \<open>C6: what the country matcher accepts\<close>

text \<open>
  C6, as the specification states it, fails: the native name of a country in the
  exclusion set is accepted, here ``United States'' for the code US.
\<close>

theorem isLastLineCountry_native_of_excluded:
  "isLastLineCountry [(''US'', \<lparr>name = ''United States'', native = ''United States''\<rparr>)]
       ''United States'' country_name_variations
   \<and> \<not> isCountryLine_spec [(''US'', \<lparr>name = ''United States'', native = ''United States''\<rparr>)]
       ''United States'' country_name_variations"
  by (simp add: isLastLineCountry_def isCountryLine_spec_def country_name_variations_def
      variation_countrycodes_def)

text \<open>
  C6 (amended): \<open>isLastLineCountry\<close> returns true if and only if the text equals the
  official name of a country whose code is not US, NL or SG, or the native name of any
  country of the list, or one of the variations; equality is exact.
\<close>

theorem isLastLineCountry_iff:
  "isLastLineCountry cs txt variations \<longleftrightarrow>
     (\<exists>(countrycode, v) \<in> set cs. countrycode \<notin> {''US'', ''NL'', ''SG''} \<and> name v = txt)
     \<or> (\<exists>(countrycode, v) \<in> set cs. native v = txt)
     \<or> txt \<in> set variations"
  unfolding isLastLineCountry_def list_ex_iff variation_countrycodes_def
  by auto

theorem isLastLineCountry_iff_witness:
  "isLastLineCountry example_countries ''Nederland'' country_name_variations
   \<and> \<not> isLastLineCountry example_countries ''Netherlands'' country_name_variations
   \<and> \<not> isLastLineCountry example_countries ''germany'' country_name_variations"
  using isLastLineCountry_iff [of example_countries "''Nederland''" country_name_variations]
    isLastLineCountry_iff [of example_countries "''Netherlands''" country_name_variations]
    isLastLineCountry_iff [of example_countries "''germany''" country_name_variations]
  by (simp add: example_countries_def country_name_variations_def)

section \<open>C7: the custom-template rule\<close>

lemma truthy_holds_value: "truthy v = holds_value v"
proof (cases v)
  case None
  then show ?thesis by (simp add: holds_value_def)
next
  case (Some w)
  then show ?thesis by (cases w) (auto simp: holds_value_def)
qed

lemma js_includes_entry_contains: "js_includes names v = entry_contains names v"
proof (cases v)
  case None
  then show ?thesis by (simp add: entry_contains_def)
next
  case (Some w)
  then show ?thesis by (cases w) (auto simp: entry_contains_def)
qed

lemma about_property_to_event [simp]:
  "about_property prp (to_event t fd) = startsWith (msg fd) (template_remark prp)"
  by (simp add: about_property_def to_event_def)

lemma property_errors_push_error:
  "property_errors prp (push_error e st)
   = property_errors prp st
     @ (if startsWith (msg e) (template_remark prp) then [to_event Error e] else [])"
  by (simp add: property_errors_def push_error_def)

lemma property_errors_push_autofix [simp]:
  "property_errors prp (push_autofix e st) = property_errors prp st"
  by (simp add: property_errors_def push_autofix_def)

lemma property_errors_af_json [simp]:
  "property_errors prp (st\<lparr>af_json := v\<rparr>) = property_errors prp st"
  by (simp add: property_errors_def)

lemma property_autofixes_push_autofix:
  "property_autofixes prp (push_autofix e st)
   = property_autofixes prp st
     @ (if startsWith (msg e) (template_remark prp) then [to_event Autofix e] else [])"
  by (simp add: property_autofixes_def push_autofix_def)

lemma property_autofixes_push_error [simp]:
  "property_autofixes prp (push_error e st) = property_autofixes prp st"
  by (simp add: property_autofixes_def push_error_def)

lemma property_autofixes_af_json [simp]:
  "property_autofixes prp (st\<lparr>af_json := v\<rparr>) = property_autofixes prp st"
  by (simp add: property_autofixes_def)

lemmas property_push = property_errors_push_error property_autofixes_push_autofix template_remark_def

lemma property_required_elements_check:
  "required_elements_check json st = Inr st' \<Longrightarrow>
   property_errors prp st' = property_errors prp st
   \<and> property_autofixes prp st' = property_autofixes prp st"
  by (auto simp: required_elements_check_def property_push required_elements_finding_def
      split: if_splits option.splits json.splits sum.splits)

lemma property_quality_check:
  "property_errors prp (quality_check json st) = property_errors prp st
   \<and> property_autofixes prp (quality_check json st) = property_autofixes prp st"
  by (simp add: quality_check_def property_push quality_finding_def)

lemma property_whitespace_step:
  "property_errors prp (whitespace_step af json key st) = property_errors prp st
   \<and> property_autofixes prp (whitespace_step af json key st) = property_autofixes prp st"
  by (simp add: whitespace_step_def property_push whitespace_finding_def Let_def
      split: option.splits json.splits)

lemma property_whitespace_check:
  "property_errors prp (whitespace_check af json st) = property_errors prp st
   \<and> property_autofixes prp (whitespace_check af json st) = property_autofixes prp st"
proof -
  have "property_errors prp (fold (whitespace_step af json) ks st) = property_errors prp st
        \<and> property_autofixes prp (fold (whitespace_step af json) ks st) = property_autofixes prp st"
    for ks
    by (induction ks arbitrary: st) (simp_all add: property_whitespace_step)
  then show ?thesis by (simp add: whitespace_check_def)
qed

lemma property_line_count_check:
  "property_errors prp (line_count_check ls st) = property_errors prp st
   \<and> property_autofixes prp (line_count_check ls st) = property_autofixes prp st"
  by (simp add: line_count_check_def property_push line_count_finding_def)

lemma property_line_trim_check:
  "property_errors prp (line_trim_check af ls st) = property_errors prp st
   \<and> property_autofixes prp (line_trim_check af ls st) = property_autofixes prp st"
  by (simp add: line_trim_check_def property_push line_trim_finding_def Let_def)

lemma property_name_check:
  "name_check af json ls st = Inr st' \<Longrightarrow>
   property_errors prp st' = property_errors prp st
   \<and> property_autofixes prp st' = property_autofixes prp st"
  by (auto simp: name_check_def property_push name_finding_def name_autofix_def Let_def
      split: if_splits list.splits)

lemma property_country_check:
  "country_check ev ls st = Inr st' \<Longrightarrow>
   property_errors prp st' = property_errors prp st
   \<and> property_autofixes prp st' = property_autofixes prp st"
  by (auto simp: country_check_def property_push country_finding_def Let_def
      split: if_splits list.splits option.splits sum.splits)

lemma startsWith_append_same: "startsWith (a @ s) (a @ p) = startsWith s p"
  by (induction a) auto

lemma startsWith_self: "startsWith (p @ s) p"
  using startsWith_append_same [of p s "[]"] by simp

lemma template_remark_starts:
  assumes "prp \<in> set custom_template_props" and "prp' \<in> set custom_template_props"
  shows "startsWith (template_remark prp' @ s) (template_remark prp) \<longleftrightarrow> prp = prp'"
proof (cases "prp = prp'")
  case True
  then show ?thesis by (simp add: startsWith_self)
next
  case False
  have "startsWith (template_remark prp' @ s) (template_remark prp)
        = startsWith (prp' @ [SQ] @ s) (prp @ [SQ])"
    using startsWith_append_same [of "''Record specifies '' @ [SQ]" "prp' @ [SQ] @ s" "prp @ [SQ]"]
    by (simp add: template_remark_def)
  with False assms show ?thesis
    by (auto simp: custom_template_props_def)
qed

lemma to_event_template_finding:
  "to_event Error (template_finding_for json prp) = template_error json prp"
  by (simp add: template_finding_for_def to_event_def template_error_def template_remark_def
      template_language_finding_def template_english_finding_def)

lemma msg_template_finding:
  "\<exists>s. msg (template_finding_for json prp) = template_remark prp @ s"
  by (simp add: template_finding_for_def template_remark_def
      template_language_finding_def template_english_finding_def)

lemma template_check_entry:
  assumes "map_of tpls (effective_language json) = Some names"
  shows "template_check tpls json prp st
         = Inr (if holds_value (js_get json prp) \<and> \<not> entry_contains names (js_get json prp)
                then push_error (template_finding_for json prp) st else st)"
  using assms
  by (cases "holds_value (js_get json ''request-language'')")
    (auto simp: template_check_def effective_language_def template_finding_for_def
      truthy_holds_value js_includes_entry_contains)

lemma autofixes_push_error [simp]: "autofixes (push_error e st) = autofixes st"
  by (simp add: push_error_def)

lemma property_template_check:
  assumes "map_of tpls (effective_language json) = Some names"
    and "prp \<in> set custom_template_props" and "prp' \<in> set custom_template_props"
  shows "\<exists>st'. template_check tpls json prp' st = Inr st'
           \<and> af_json st' = af_json st \<and> autofixes st' = autofixes st
           \<and> property_errors prp st'
             = property_errors prp st
               @ (if prp = prp' \<and> holds_value (js_get json prp)
                     \<and> \<not> entry_contains names (js_get json prp)
                  then [template_error json prp] else [])"
proof -
  obtain s where s: "msg (template_finding_for json prp') = template_remark prp' @ s"
    using msg_template_finding by blast
  have "startsWith (msg (template_finding_for json prp')) (template_remark prp) \<longleftrightarrow> prp = prp'"
    unfolding s using template_remark_starts [OF assms(2,3)] .
  then show ?thesis
    by (auto simp: template_check_entry [OF assms(1)] property_errors_push_error
        to_event_template_finding)
qed

lemma property_template_checks:
  assumes "map_of tpls (effective_language json) = Some names"
    and "prp \<in> set custom_template_props"
  shows "set prps \<subseteq> set custom_template_props \<Longrightarrow> distinct prps \<Longrightarrow>
         \<exists>st'. template_checks tpls json prps st = Inr st'
           \<and> af_json st' = af_json st \<and> autofixes st' = autofixes st
           \<and> property_errors prp st'
             = property_errors prp st
               @ (if prp \<in> set prps \<and> holds_value (js_get json prp)
                     \<and> \<not> entry_contains names (js_get json prp)
                  then [template_error json prp] else [])"
proof (induction prps arbitrary: st)
  case Nil
  then show ?case by simp
next
  case (Cons prp' prps)
  from Cons.prems have mem: "prp' \<in> set custom_template_props" by simp
  from property_template_check [OF assms(1,2) mem, of st]
  obtain t where t: "template_check tpls json prp' st = Inr t"
    and ta: "af_json t = af_json st" "autofixes t = autofixes st"
    and te: "property_errors prp t
             = property_errors prp st
               @ (if prp = prp' \<and> holds_value (js_get json prp)
                     \<and> \<not> entry_contains names (js_get json prp)
                  then [template_error json prp] else [])"
    by blast
  from Cons.IH [of t] Cons.prems
  obtain st' where r: "template_checks tpls json prps t = Inr st'"
    and ra: "af_json st' = af_json t" "autofixes st' = autofixes t"
    and re: "property_errors prp st'
             = property_errors prp t
               @ (if prp \<in> set prps \<and> holds_value (js_get json prp)
                     \<and> \<not> entry_contains names (js_get json prp)
                  then [template_error json prp] else [])"
    by auto
  from Cons.prems have "prp' \<notin> set prps" by simp
  with t ta te r ra re show ?case by auto
qed

text \<open>
  C7, as the specification states it, fails: a \<open>custom-access-template\<close> that is the
  empty string is present and the entry for \<open>en\<close> does not contain it, yet line 128
  skips the property and no finding is returned.
\<close>

theorem blank_template_not_reported:
  "template_error_claimed [''access-default''] record_blank_template ''custom-access-template''
   \<and> map_of (templates report_env) (effective_language record_blank_template) = Some [''access-default'']
   \<and> run_checks report_env record_blank_template = Inr (empty_state record_blank_template)"
  by code_simp

text \<open>
  C7 (amended): assume the catalogue has an entry for the effective language (the
  record's \<open>request-language\<close> if it holds a value, else \<open>en\<close>) and the rule engine
  returns. Then, for each of the four \<open>custom-*-template\<close> properties, the returned
  findings hold exactly one about the property if the property holds a value (it is
  there and is not the empty string, \<open>null\<close>, \<open>false\<close> or \<open>0\<close>) that the entry
  does not contain, and none otherwise. That finding is an error, and it has a
  reference link exactly when \<open>request-language\<close> holds no value. The loop returns
  from every state and leaves the fixed copy and the autofixes as they were.
\<close>

theorem custom_template_rule:
  assumes entry: "map_of (templates ev) (effective_language json) = Some names"
    and prp: "prp \<in> set custom_template_props"
    and run: "additional_checks ev json f d = Inr (evs, d')"
  shows "filter (about_property prp) evs
           = (if holds_value (js_get json prp) \<and> \<not> entry_contains names (js_get json prp)
              then [template_error json prp] else [])
         \<and> (\<forall>e \<in> set evs. about_property prp e \<longrightarrow>
               type e = Error
               \<and> (ref e \<noteq> None \<longleftrightarrow> \<not> holds_value (js_get json ''request-language'')))
         \<and> (\<exists>st'. template_checks (templates ev) json custom_template_props st = Inr st'
               \<and> af_json st' = af_json st \<and> autofixes st' = autofixes st)"
proof -
  from run obtain fin where fin: "run_checks ev json = Inr fin" and evs: "evs = returnevents fin"
    by (auto simp: additional_checks_def split: sum.splits)
  from fin obtain s1 s2 ls s7 where
    1: "required_elements_check json (empty_state json) = Inr s1"
    and 2: "template_checks (templates ev) json custom_template_props s1 = Inr s2"
    and 7: "name_check (autofix ev) json ls
              (line_trim_check (autofix ev) ls (line_count_check ls
                 (whitespace_check (autofix ev) json (quality_check json s2)))) = Inr s7"
    and 8: "country_check ev ls s7 = Inr fin"
    by (rule run_checks_stages)
  have props: "set custom_template_props \<subseteq> set custom_template_props"
    "distinct custom_template_props"
    by (simp_all add: custom_template_props_def)
  have e0: "property_errors prp (empty_state json) = []"
    "property_autofixes prp (empty_state json) = []"
    by (simp_all add: property_errors_def property_autofixes_def empty_state_def)
  from property_template_checks [OF entry prp props, of s1] 2 prp
  have e2: "property_errors prp s2
            = property_errors prp s1
              @ (if holds_value (js_get json prp) \<and> \<not> entry_contains names (js_get json prp)
                 then [template_error json prp] else [])"
    and a2: "autofixes s2 = autofixes s1"
    by auto
  from a2 have pa2: "property_autofixes prp s2 = property_autofixes prp s1"
    by (simp add: property_autofixes_def)
  from property_required_elements_check [OF 1, of prp] e0 e2 pa2
    property_name_check [OF 7, of prp] property_country_check [OF 8, of prp]
  have fe: "property_errors prp fin
            = (if holds_value (js_get json prp) \<and> \<not> entry_contains names (js_get json prp)
               then [template_error json prp] else [])"
    and fa: "property_autofixes prp fin = []"
    by (simp_all add: property_quality_check property_whitespace_check property_line_count_check
        property_line_trim_check)
  have "filter (about_property prp) evs = property_autofixes prp fin @ property_errors prp fin"
    by (simp add: evs returnevents_def property_errors_def property_autofixes_def)
  with fe fa have first: "filter (about_property prp) evs
           = (if holds_value (js_get json prp) \<and> \<not> entry_contains names (js_get json prp)
              then [template_error json prp] else [])"
    by simp
  have second: "\<forall>e \<in> set evs. about_property prp e \<longrightarrow>
               type e = Error
               \<and> (ref e \<noteq> None \<longleftrightarrow> \<not> holds_value (js_get json ''request-language''))"
  proof (intro ballI impI)
    fix e
    assume "e \<in> set evs" and "about_property prp e"
    then have "e \<in> set (filter (about_property prp) evs)" by simp
    with first have "e = template_error json prp" by (auto split: if_splits)
    then show "type e = Error
               \<and> (ref e \<noteq> None \<longleftrightarrow> \<not> holds_value (js_get json ''request-language''))"
      by (simp add: template_error_def)
  qed
  from property_template_checks [OF entry prp props, of st]
  have third: "\<exists>st'. template_checks (templates ev) json custom_template_props st = Inr st'
               \<and> af_json st' = af_json st \<and> autofixes st' = autofixes st"
    by blast
  from first second third show ?thesis by blast
qed

lemma run_checks_acme_template:
  "run_checks report_env record_acme_template
   = Inr \<lparr>af_json = record_acme_template,
          errors = [template_english_finding record_acme_template ''custom-access-template''],
          autofixes = []\<rparr>"
  by code_simp

theorem custom_template_rule_witness:
  "additional_checks report_env record_acme_template acme_path Map.empty
     = Inr ([template_error record_acme_template ''custom-access-template''], Map.empty)
   \<and> ref (template_error record_acme_template ''custom-access-template'') \<noteq> None"
proof -
  define evs where
    "evs = [to_event Error (template_english_finding record_acme_template ''custom-access-template'')]"
  have run: "additional_checks report_env record_acme_template acme_path Map.empty
             = Inr (evs, Map.empty)"
    unfolding additional_checks_def run_checks_acme_template
    by (simp add: returnevents_def report_env_def evs_def)
  have entry: "map_of (templates report_env) (effective_language record_acme_template)
               = Some [''access-default'']"
    by code_simp
  have prp: "''custom-access-template'' \<in> set custom_template_props"
    by (simp add: custom_template_props_def)
  have cond: "holds_value (js_get record_acme_template ''custom-access-template'')
              \<and> \<not> entry_contains [''access-default'']
                    (js_get record_acme_template ''custom-access-template'')"
    by code_simp
  have about: "about_property ''custom-access-template''
                 (to_event Error (template_english_finding record_acme_template ''custom-access-template''))"
    by code_simp
  from custom_template_rule [OF entry prp run] cond about
  have "evs = [template_error record_acme_template ''custom-access-template'']"
    and "ref (template_error record_acme_template ''custom-access-template'') \<noteq> None"
    by (auto simp: evs_def template_error_def holds_value_def record_acme_template_def)
  with run show ?thesis by simp
qed

section \<open>C8: a file that does not parse\<close>



section \<open>C9: report-only mode leaves the disk alone\<close>

lemma additional_checks_report_only:
  assumes "\<not> autofix ev" and "additional_checks ev json f d = Inr (tmp, d')"
  shows "d' = d"
  using assms by (auto simp: additional_checks_def split: sum.splits)

lemma process_file_disk:
  assumes "\<And>additional json tmp d'.
             chk = Some additional \<Longrightarrow> additional json f d = Inr (tmp, d') \<Longrightarrow> d' = d"
    and "process_file pf sch chk f (evs, d) = Inr (evs', d')"
  shows "d' = d"
  using assms
  by (fastforce simp: process_file_def Let_def split: option.splits sum.splits if_splits prod.splits)

lemma validator_files_disk:
  assumes "\<And>additional json f d tmp d'.
             chk = Some additional \<Longrightarrow> additional json f d = Inr (tmp, d') \<Longrightarrow> d' = d"
  shows "fst (validator_files pf sch chk fs s) = snd s"
proof (induction fs arbitrary: s)
  case Nil
  show ?case by simp
next
  case (Cons f fs)
  show ?case
  proof (cases "process_file pf sch chk f s")
    case (Inl e)
    then show ?thesis by simp
  next
    case (Inr s')
    obtain evs d where s: "s = (evs, d)" by (cases s)
    obtain evs' d' where s': "s' = (evs', d')" by (cases s')
    have "d' = d"
      using process_file_disk [of chk f d pf sch evs evs' d'] assms Inr s s' by blast
    with Inr Cons.IH [of s'] s s' show ?thesis by simp
  qed
qed

text \<open>
  C9: without the auto-fix flag the disk after the run is the disk before it, whatever
  the files hold, whatever findings are produced and whether or not the run is cut
  short by an exception.
\<close>

theorem report_only_never_writes:
  assumes "\<not> autofix ev"
  shows "fst (main ev pf cdb_schema adb_schema d) = d"
proof -
  have 1: "fst (validator pf ''companies'' cdb_schema (Some (additional_checks ev)) d) = d"
    unfolding validator_def
    using validator_files_disk [of "Some (additional_checks ev)" pf cdb_schema _ "(Map.empty, d)"]
      additional_checks_report_only [OF assms]
    by auto
  have 2: "fst (validator pf ''supervisory-authorities'' adb_schema None d) = d"
    unfolding validator_def
    using validator_files_disk [of None pf adb_schema _ "(Map.empty, d)"] by simp
  show ?thesis
    using 1 2 by (auto simp: main_def split: prod.splits sum.splits)
qed

theorem report_only_never_writes_witness:
  "\<not> autofix report_env
   \<and> fst (main report_env (platform_for scenario_file record_scenario) (\<lambda>json. None) (\<lambda>json. None)
            [acme_path \<mapsto> scenario_file])
     = [acme_path \<mapsto> scenario_file]"
  using report_only_never_writes [of report_env "platform_for scenario_file record_scenario"
      "\<lambda>json. None" "\<lambda>json. None" "[acme_path \<mapsto> scenario_file]"]
  by (simp add: report_env_def)

section \<open>C10: the duplicate-name fix\<close>

lemma has_name_error_push_error:
  "has_name_error (push_error e st) \<longleftrightarrow> e = name_finding \<or> has_name_error st"
  by (auto simp: has_name_error_def push_error_def)

lemma has_name_error_push_autofix [simp]:
  "has_name_error (push_autofix e st) = has_name_error st"
  by (simp add: has_name_error_def push_autofix_def)

lemma has_name_error_af_json [simp]: "has_name_error (st\<lparr>af_json := v\<rparr>) = has_name_error st"
  by (simp add: has_name_error_def)

lemma has_name_error_autofixes [simp]:
  "has_name_error (st\<lparr>autofixes := v\<rparr>) = has_name_error st"
  by (simp add: has_name_error_def)

lemma ne_required_elements_check:
  "required_elements_check json st = Inr st' \<Longrightarrow> has_name_error st' = has_name_error st"
  by (auto simp: required_elements_check_def has_name_error_push_error required_elements_finding_def
      name_finding_def split: if_splits option.splits json.splits sum.splits)

lemma ne_template_check:
  "template_check tpls json prp st = Inr st' \<Longrightarrow> has_name_error st' = has_name_error st"
  by (auto simp: template_check_def has_name_error_push_error template_language_finding_def
      template_english_finding_def name_finding_def split: if_splits option.splits)

lemma ne_template_checks:
  "template_checks tpls json prps st = Inr st' \<Longrightarrow> has_name_error st' = has_name_error st"
proof (induction prps arbitrary: st)
  case Nil
  then show ?case by simp
next
  case (Cons prp prps)
  then show ?case by (auto split: sum.splits dest: ne_template_check)
qed

lemma ne_quality_check: "has_name_error (quality_check json st) = has_name_error st"
  by (simp add: quality_check_def has_name_error_push_error quality_finding_def name_finding_def)

lemma ne_whitespace_step: "has_name_error (whitespace_step af json key st) = has_name_error st"
  by (simp add: whitespace_step_def has_name_error_push_error whitespace_finding_def name_finding_def
      Let_def split: option.splits json.splits)

lemma ne_whitespace_check: "has_name_error (whitespace_check af json st) = has_name_error st"
proof -
  have "has_name_error (fold (whitespace_step af json) ks st) = has_name_error st" for ks
    by (induction ks arbitrary: st) (simp_all add: ne_whitespace_step)
  then show ?thesis by (simp add: whitespace_check_def)
qed

lemma ne_line_count_check: "has_name_error (line_count_check ls st) = has_name_error st"
  by (simp add: line_count_check_def has_name_error_push_error line_count_finding_def name_finding_def)

lemma ne_line_trim_check: "has_name_error (line_trim_check af ls st) = has_name_error st"
  by (simp add: line_trim_check_def has_name_error_push_error line_trim_finding_def name_finding_def
      Let_def)

lemma ne_country_check:
  "country_check ev ls st = Inr st' \<Longrightarrow> has_name_error st' = has_name_error st"
  by (auto simp: country_check_def has_name_error_push_error country_finding_def name_finding_def
      Let_def split: if_splits list.splits option.splits sum.splits)

text \<open>The effect of lines 177 to 181 when the trimmed first line is the name.\<close>

lemma name_check_fix:
  assumes "js_get json ''name'' = Some (JStr (trim first_line))"
  shows "name_check True json (first_line # rest) st
         = Inr (push_autofix name_autofix
                  ((if trim first_line \<in> set (first_line # rest) then push_error name_finding st else st)
                     \<lparr>af_json := js_set (af_json st) ''address'' (JStr (join [NL] rest))\<rparr>))"
  using assms by (simp add: name_check_def Let_def)

lemma country_check_effect:
  assumes "country_check ev ls st = Inr st'" and "is_object (af_json st)"
    and "js_get (af_json st) ''address'' = Some (JStr cur)"
  shows "autofixes st' = autofixes st \<and> af_json st' = af_json st
         \<or> (\<exists>a cn. autofixes st' = autofixes st @ [a]
               \<and> af_json st' = js_set (af_json st) ''address'' (JStr (cur @ [NL] @ cn)))"
  using assms
  by (auto simp: country_check_def Let_def push_autofix_def push_error_def
      split: if_splits list.splits option.splits sum.splits)

text \<open>
  C10, as stated, fails: the first address line equals \<open>name\<close> after trimming, lines
  178 to 181 apply the fix, and then the last line ``Berlin'' makes line 197 throw; no
  autofix finding is returned, the file is not written and the run ends.
\<close>

theorem duplicate_name_fix_lost_by_throw:
  "autofix example_env
   \<and> js_get record_padded_city ''address''
     = Some (JStr ('' Acme'' @ [NL] @ ''Musterstr. 1'' @ [NL] @ ''Berlin''))
   \<and> split NL ('' Acme'' @ [NL] @ ''Musterstr. 1'' @ [NL] @ ''Berlin'')
     = ['' Acme'', ''Musterstr. 1'', ''Berlin'']
   \<and> js_get record_padded_city ''name'' = Some (JStr (trim '' Acme''))
   \<and> additional_checks example_env record_padded_city acme_path
        [acme_path \<mapsto> JSON_stringify4 record_padded_city @ [NL]]
     = Inl (TypeError ''exec(last_line)[1]'')
   \<and> main example_env (platform_for (JSON_stringify4 record_padded_city @ [NL]) record_padded_city)
        (\<lambda>json. None) (\<lambda>json. None) [acme_path \<mapsto> JSON_stringify4 record_padded_city @ [NL]]
     = ([acme_path \<mapsto> JSON_stringify4 record_padded_city @ [NL]],
        Inl (TypeError ''exec(last_line)[1]''))"
proof -
  have r: "run_checks example_env record_padded_city = Inl (TypeError ''exec(last_line)[1]'')"
    by code_simp
  have a: "additional_checks example_env record_padded_city f d
           = Inl (TypeError ''exec(last_line)[1]'')" for f d
    by (simp add: additional_checks_def r)
  have n: "record_padded_city \<noteq> JNull"
    by (simp add: record_padded_city_def)
  have 1: "autofix example_env"
    by (simp add: example_env_def)
  have 2: "js_get record_padded_city ''address''
           = Some (JStr ('' Acme'' @ [NL] @ ''Musterstr. 1'' @ [NL] @ ''Berlin''))"
    by (simp add: record_padded_city_def)
  have 3: "split NL ('' Acme'' @ [NL] @ ''Musterstr. 1'' @ [NL] @ ''Berlin'')
           = ['' Acme'', ''Musterstr. 1'', ''Berlin'']"
    by simp
  have 4: "js_get record_padded_city ''name'' = Some (JStr (trim '' Acme''))"
    by (simp add: record_padded_city_def trim_def is_ws_def)
  have 5: "main example_env (platform_for (JSON_stringify4 record_padded_city @ [NL]) record_padded_city)
        (\<lambda>json. None) (\<lambda>json. None) [acme_path \<mapsto> JSON_stringify4 record_padded_city @ [NL]]
     = ([acme_path \<mapsto> JSON_stringify4 record_padded_city @ [NL]],
        Inl (TypeError ''exec(last_line)[1]''))"
    by (simp add: a n main_def validator_def platform_for_def process_file_def Let_def)
  from 1 2 3 4 5 a show ?thesis by blast
qed

text \<open>
  C10 (amended): in auto-fix mode, for a record whose first address line equals \<open>name\<close> after
  trimming, every run of the rule engine that returns has dropped the first line from
  the address of the fixed copy (the country rule may have appended a line after it),
  returns the autofix finding for the removed name and has rewritten the file; when no
  address line equals \<open>name\<close> as it stands, the duplicate-name error is not among
  the findings.
\<close>

theorem duplicate_name_fix_without_error:
  assumes af: "autofix ev"
    and obj: "json = JObj kvs"
    and addr: "map_of kvs ''address'' = Some (JStr a)"
    and nm: "map_of kvs ''name'' = Some (JStr n)"
    and ls: "split NL a = first_line # rest"
    and tr: "trim first_line = n"
    and run: "additional_checks ev json f d = Inr (evs, d')"
  shows "\<exists>st. run_checks ev json = Inr st
           \<and> (js_get (af_json st) ''address'' = Some (JStr (join [NL] rest))
              \<or> (\<exists>cn. js_get (af_json st) ''address'' = Some (JStr (join [NL] rest @ [NL] @ cn))))
           \<and> d' = d(f \<mapsto> JSON_stringify4 (af_json st) @ [NL])
           \<and> to_event Autofix name_autofix \<in> set evs
           \<and> (n \<notin> set (split NL a) \<longrightarrow> to_event Error name_finding \<notin> set evs)"
proof -
  from run obtain st where st: "run_checks ev json = Inr st" and evs: "evs = returnevents st"
    and d': "d' = (if autofix ev \<and> strict_neq_copy json (af_json st)
                   then d(f \<mapsto> JSON_stringify4 (af_json st) @ [NL]) else d)"
    by (auto simp: additional_checks_def split: sum.splits)
  from st obtain st1 st2 ls' st7 where
    1: "required_elements_check json (empty_state json) = Inr st1"
    and 2: "template_checks (templates ev) json custom_template_props st1 = Inr st2"
    and l: "address_lines_of json = Inr ls'"
    and 7: "name_check (autofix ev) json ls'
              (line_trim_check (autofix ev) ls' (line_count_check ls'
                 (whitespace_check (autofix ev) json (quality_check json st2)))) = Inr st7"
    and 8: "country_check ev ls' st7 = Inr st"
    by (rule run_checks_stages)
  from l obj addr ls have ls': "ls' = first_line # rest"
    by (simp add: address_lines_of_def)
  define st6 where "st6 = line_trim_check (autofix ev) ls' (line_count_check ls'
                 (whitespace_check (autofix ev) json (quality_check json st2)))"
  have name: "js_get json ''name'' = Some (JStr (trim first_line))"
    using obj nm tr by simp
  have obj6: "is_object (af_json st6)"
    unfolding st6_def
    using af_required_elements_check [OF 1] af_template_checks [OF 2] obj
    by (simp add: object_line_trim_check af_line_count_check object_whitespace_check af_quality_check
        empty_state_def)
  have "\<not> has_name_error (empty_state json)"
    by (simp add: empty_state_def has_name_error_def)
  then have ne6: "\<not> has_name_error st6"
    unfolding st6_def
    using ne_required_elements_check [OF 1] ne_template_checks [OF 2]
    by (simp add: ne_line_trim_check ne_line_count_check ne_whitespace_check ne_quality_check)
  have st7: "st7 = push_autofix name_autofix
                  ((if trim first_line \<in> set (first_line # rest) then push_error name_finding st6 else st6)
                     \<lparr>af_json := js_set (af_json st6) ''address'' (JStr (join [NL] rest))\<rparr>)"
    using 7 name_check_fix [OF name, of rest st6] af ls' by (simp add: st6_def)
  have a7: "js_get (af_json st7) ''address'' = Some (JStr (join [NL] rest))"
    and o7: "is_object (af_json st7)"
    and f7: "name_autofix \<in> set (autofixes st7)"
    and e7: "has_name_error st7 \<longleftrightarrow> n \<in> set (split NL a)"
    using obj6 ne6 tr ls
    by (auto simp: st7 js_get_js_set push_autofix_def has_name_error_push_error)
  from country_check_effect [OF 8 o7 a7]
  have addr_final: "js_get (af_json st) ''address'' = Some (JStr (join [NL] rest))
              \<or> (\<exists>cn. js_get (af_json st) ''address'' = Some (JStr (join [NL] rest @ [NL] @ cn)))"
    and fix_final: "name_autofix \<in> set (autofixes st)"
    using a7 o7 f7 by (auto simp: js_get_js_set)
  have err_final: "has_name_error st \<longleftrightarrow> n \<in> set (split NL a)"
    using ne_country_check [OF 8] e7 by simp
  have written: "d' = d(f \<mapsto> JSON_stringify4 (af_json st) @ [NL])"
    using d' af obj by simp
  have ev1: "to_event Autofix name_autofix \<in> set evs"
    using fix_final by (auto simp: evs returnevents_def)
  have ev2: "n \<notin> set (split NL a) \<longrightarrow> to_event Error name_finding \<notin> set evs"
    using err_final
    by (auto simp: evs returnevents_def has_name_error_def to_event_eq)
  from st addr_final written ev1 ev2 show ?thesis by blast
qed

lemma run_checks_padded_name_returns:
  "case run_checks example_env record_padded_name of Inl e \<Rightarrow> False | Inr st \<Rightarrow> True"
  by code_simp

theorem duplicate_name_fix_without_error_witness:
  "case additional_checks example_env record_padded_name acme_path Map.empty of
     Inl e \<Rightarrow> False
   | Inr (evs, d') \<Rightarrow>
       to_event Autofix name_autofix \<in> set evs \<and> to_event Error name_finding \<notin> set evs
       \<and> d' acme_path \<noteq> None"
proof -
  obtain st where st: "run_checks example_env record_padded_name = Inr st"
    using run_checks_padded_name_returns by (auto split: sum.splits)
  define evs where "evs = returnevents st"
  define d' where "d' = [acme_path \<mapsto> JSON_stringify4 (af_json st) @ [NL]]"
  define a where "a = '' Acme'' @ [NL] @ ''Musterstr. 1'' @ [NL] @ ''Germany''"
  define kvs where "kvs = [(''slug'', JStr ''acme''), (''name'', JStr ''Acme''), (''address'', JStr a)]"
  have h1: "autofix example_env"
    by (simp add: example_env_def)
  have h2: "record_padded_name = JObj kvs"
    by (simp add: record_padded_name_def kvs_def a_def)
  have run: "additional_checks example_env record_padded_name acme_path Map.empty = Inr (evs, d')"
    unfolding additional_checks_def st
    by (simp add: evs_def d'_def h1 h2)
  have h3: "map_of kvs ''address'' = Some (JStr a)"
    by (simp add: kvs_def)
  have h4: "map_of kvs ''name'' = Some (JStr ''Acme'')"
    by (simp add: kvs_def)
  have h5: "split NL a = '' Acme'' # [''Musterstr. 1'', ''Germany'']"
    by (simp add: a_def)
  have h6: "trim '' Acme'' = ''Acme''"
    by (simp add: trim_def is_ws_def)
  have h7: "''Acme'' \<notin> set (split NL a)"
    by (simp add: h5)
  from duplicate_name_fix_without_error [OF h1 h2 h3 h4 h5 h6 run] h7
  have "to_event Autofix name_autofix \<in> set evs \<and> to_event Error name_finding \<notin> set evs"
    by blast
  then show ?thesis
    by (simp add: run d'_def)
qed

end
